theory Spec2Isabelle
  imports Main "HOL-Library.Multiset"
begin

section \<open>Strings of the Go standard library\<close>

text \<open>
  A Go string is a sequence of bytes; it is modelled as \<^typ>\<open>string\<close>, one \<^typ>\<open>char\<close>
  per byte. The functions of this section are the parts of \<^verbatim>\<open>strings\<close>, \<^verbatim>\<open>strconv\<close>
  and \<^verbatim>\<open>bufio\<close> that the two listing parsers call.
\<close>

definition isDigit :: "char \<Rightarrow> bool" where
  "isDigit c = (c \<in> set ''0123456789'')"

definition digitVal :: "char \<Rightarrow> int" where
  "digitVal c = of_char c - 48"

text \<open>
  \<^verbatim>\<open>strings.ToLower\<close>. The parsers compare its result with ASCII literals only. On ASCII
  letters it is the usual mapping. Two runes outside ASCII have an ASCII lower case in
  Go's tables, U+0130 (bytes C4 B0, lower case \<^verbatim>\<open>i\<close>) and U+212A (bytes E2 84 AA, lower case
  \<^verbatim>\<open>k\<close>); they are mapped as Go maps them. Every other byte from 0x80 on is kept: Go's result
  for such a rune is again outside ASCII, so it equals none of the literals in either case.
\<close>

definition lowerByte :: "char \<Rightarrow> char" where
  "lowerByte c =
     (case map_of (zip ''ABCDEFGHIJKLMNOPQRSTUVWXYZ'' ''abcdefghijklmnopqrstuvwxyz'') c of
        Some l \<Rightarrow> l
      | None \<Rightarrow> c)"

fun ToLower :: "string \<Rightarrow> string" where
  "ToLower [] = []"
| "ToLower (c # cs) =
     (if c = CHR 0xE2 \<and> take 2 cs = [CHR 0x84, CHR 0xAA] then CHR ''k'' # ToLower (drop 2 cs)
      else if c = CHR 0xC4 \<and> take 1 cs = [CHR 0xB0] then CHR ''i'' # ToLower (drop 1 cs)
      else lowerByte c # ToLower cs)"

text \<open>
  \<^verbatim>\<open>strings.TrimSpace\<close> removes the leading and the trailing white space, as Unicode
  defines it. The list holds the UTF-8 encodings of the runes with the White_Space
  property (\<^verbatim>\<open>unicode.IsSpace\<close>): six ASCII bytes, U+0085, U+00A0, U+1680, U+2000 to
  U+200A, U+2028, U+2029, U+202F, U+205F and U+3000.
\<close>

definition spaceRunes :: "string list" where
  "spaceRunes =
     [[CHR 0x09], [CHR 0x0A], [CHR 0x0B], [CHR 0x0C], [CHR 0x0D], [CHR 0x20],
      [CHR 0xC2, CHR 0x85], [CHR 0xC2, CHR 0xA0],
      [CHR 0xE1, CHR 0x9A, CHR 0x80],
      [CHR 0xE2, CHR 0x80, CHR 0x80], [CHR 0xE2, CHR 0x80, CHR 0x81],
      [CHR 0xE2, CHR 0x80, CHR 0x82], [CHR 0xE2, CHR 0x80, CHR 0x83],
      [CHR 0xE2, CHR 0x80, CHR 0x84], [CHR 0xE2, CHR 0x80, CHR 0x85],
      [CHR 0xE2, CHR 0x80, CHR 0x86], [CHR 0xE2, CHR 0x80, CHR 0x87],
      [CHR 0xE2, CHR 0x80, CHR 0x88], [CHR 0xE2, CHR 0x80, CHR 0x89],
      [CHR 0xE2, CHR 0x80, CHR 0x8A],
      [CHR 0xE2, CHR 0x80, CHR 0xA8], [CHR 0xE2, CHR 0x80, CHR 0xA9],
      [CHR 0xE2, CHR 0x80, CHR 0xAF],
      [CHR 0xE2, CHR 0x81, CHR 0x9F],
      [CHR 0xE3, CHR 0x80, CHR 0x80]]"

definition spaceWidth :: "string list \<Rightarrow> string \<Rightarrow> nat" where
  "spaceWidth runes s =
     (case find (\<lambda>w. take (length w) s = w) runes of None \<Rightarrow> 0 | Some w \<Rightarrow> length w)"

text \<open>
  \<open>trimLeft\<close> drops white-space runes from the front. The first argument bounds the
  number of runes dropped; \<open>TrimSpace\<close> passes the length of the string, which no
  string exceeds.
\<close>

fun trimLeft :: "nat \<Rightarrow> string list \<Rightarrow> string \<Rightarrow> string" where
  "trimLeft 0 runes s = s"
| "trimLeft (Suc n) runes s =
     (if spaceWidth runes s = 0 then s else trimLeft n runes (drop (spaceWidth runes s) s))"

definition TrimLeftSpace :: "string \<Rightarrow> string" where
  "TrimLeftSpace s = trimLeft (length s) spaceRunes s"

definition TrimRightSpace :: "string \<Rightarrow> string" where
  "TrimRightSpace s = rev (trimLeft (length s) (map rev spaceRunes) (rev s))"

definition TrimSpace :: "string \<Rightarrow> string" where
  "TrimSpace s = TrimRightSpace (TrimLeftSpace s)"

text \<open>
  \<^verbatim>\<open>strings.SplitN(s, sep, 2)\<close>: the text before the first occurrence of \<open>sep\<close> and the
  text after it, or the string alone when \<open>sep\<close> does not occur.
\<close>

fun Index :: "string \<Rightarrow> string \<Rightarrow> nat option" where
  "Index [] sep = (if sep = [] then Some 0 else None)"
| "Index (c # cs) sep =
     (if take (length sep) (c # cs) = sep then Some 0 else map_option Suc (Index cs sep))"

definition SplitN2 :: "string \<Rightarrow> string \<Rightarrow> string list" where
  "SplitN2 s sep =
     (case Index s sep of
        None \<Rightarrow> [s]
      | Some m \<Rightarrow> [take m s, drop (m + length sep) s])"

subsection \<open>Errors\<close>

datatype numerr = ErrSyntax | ErrRange

text \<open>
  The error values of both packages. \<open>NumError\<close> is \<^verbatim>\<open>strconv.NumError\<close> with its
  function name, its input and its cause; \<open>ErrUnexpectedLine\<close> carries \<^verbatim>\<open>parts_len\<close> and
  \<^verbatim>\<open>raw_line\<close> of the formatted message.
\<close>

datatype error =
    ErrNoEntries
  | ErrTooLong
  | ErrUnexpectedLine nat string
  | ErrPathEmpty
  | ErrNameEmpty
  | NumError string string numerr
  | ErrGetwd

subsection \<open>Numbers\<close>

definition maxUint64 :: int where
  "maxUint64 = 18446744073709551615"

text \<open>
  \<^verbatim>\<open>strconv.ParseUint(s, 10, 64)\<close> after its check for the empty string: the digits are
  read from the left; the first byte that is no digit is a syntax error with value 0, a
  value beyond 64 bits is a range error with the largest value. The unsigned 64-bit
  values are integers with the bound written out.
\<close>

fun ParseUint_loop :: "int \<Rightarrow> string \<Rightarrow> int \<times> numerr option" where
  "ParseUint_loop n [] = (n, None)"
| "ParseUint_loop n (c # cs) =
     (if \<not> isDigit c then (0, Some ErrSyntax)
      else if n * 10 + digitVal c > maxUint64 then (maxUint64, Some ErrRange)
      else ParseUint_loop (n * 10 + digitVal c) cs)"

definition ParseUint :: "string \<Rightarrow> int \<times> numerr option" where
  "ParseUint s = (if s = [] then (0, Some ErrSyntax) else ParseUint_loop 0 s)"

text \<open>
  \<^verbatim>\<open>strconv.ParseInt(s, 10, 64)\<close>, with the name of the calling function for the error
  value. \<^verbatim>\<open>strconv.Atoi\<close> is the same conversion where \<^verbatim>\<open>int\<close> has 64 bits, which is
  assumed; its short-input fast path computes the same results.
\<close>

definition ParseIntFn :: "string \<Rightarrow> string \<Rightarrow> int \<times> error option" where
  "ParseIntFn fn s0 =
     (if s0 = [] then (0, Some (NumError fn s0 ErrSyntax))
      else
        let neg = (hd s0 = CHR ''-'');
            s = (if hd s0 = CHR ''+'' \<or> hd s0 = CHR ''-'' then tl s0 else s0);
            (un, uerr) = ParseUint s;
            cutoff = (9223372036854775808 :: int)
        in if uerr = Some ErrSyntax then (0, Some (NumError fn s0 ErrSyntax))
           else if \<not> neg \<and> un \<ge> cutoff then (cutoff - 1, Some (NumError fn s0 ErrRange))
           else if neg \<and> un > cutoff then (- cutoff, Some (NumError fn s0 ErrRange))
           else (if neg then - un else un, None))"

definition ParseInt :: "string \<Rightarrow> int \<times> error option" where
  "ParseInt s = ParseIntFn ''ParseInt'' s"

definition Atoi :: "string \<Rightarrow> int \<times> error option" where
  "Atoi s = ParseIntFn ''Atoi'' s"

subsection \<open>The line scanner\<close>

text \<open>
  \<^verbatim>\<open>bufio.Scanner\<close> over a byte buffer, with the default split function
  \<^verbatim>\<open>bufio.ScanLines\<close> and the default token limit. \<open>buf\<close> holds the bytes not yet
  handed out, \<open>serr\<close> the error \<^verbatim>\<open>Err()\<close> reports. A line ends at a line feed; one
  carriage return before it is dropped; the last line needs no line feed. A line of
  \<open>maxScanTokenSize\<close> bytes or more fills the buffer: \<^verbatim>\<open>Scan\<close> returns false and
  \<^verbatim>\<open>Err()\<close> is \<^verbatim>\<open>ErrTooLong\<close> from then on. The buffer then still holds its
  \<open>maxScanTokenSize\<close> bytes, and one more call of \<^verbatim>\<open>Scan\<close> hands them out as a last
  token; the rest of the input is never read.
\<close>

record Scanner =
  buf :: string
  serr :: "error option"

definition NewScanner :: "string \<Rightarrow> Scanner" where
  "NewScanner d = \<lparr>buf = d, serr = None\<rparr>"

definition maxScanTokenSize :: nat where
  "maxScanTokenSize = 65536"

definition dropCR :: "string \<Rightarrow> string" where
  "dropCR data = (if data \<noteq> [] \<and> last data = CHR 0x0D then butlast data else data)"

definition Scan :: "Scanner \<Rightarrow> string option \<times> Scanner" where
  "Scan sc =
     (if serr sc \<noteq> None then
        (if buf sc = [] then (None, sc) else (Some (dropCR (buf sc)), sc\<lparr>buf := []\<rparr>))
      else
        let line = takeWhile (\<lambda>c. c \<noteq> CHR 0x0A) (buf sc) in
        if length line \<ge> maxScanTokenSize then
          (None, sc\<lparr>buf := take maxScanTokenSize (buf sc), serr := Some ErrTooLong\<rparr>)
        else if length line < length (buf sc) then
          (Some (dropCR line), sc\<lparr>buf := drop (Suc (length line)) (buf sc)\<rparr>)
        else if buf sc = [] then (None, sc)
        else (Some (dropCR line), sc\<lparr>buf := []\<rparr>))"

definition Err :: "Scanner \<Rightarrow> error option" where
  "Err sc = serr sc"

lemma Scan_Some_shorter:
  "Scan sc = (Some s, sc') \<Longrightarrow> length (buf sc') < length (buf sc)"
  by (auto simp: Scan_def Let_def split: if_splits)

lemma Scan_None_same_length:
  "Scan sc = (None, sc') \<Longrightarrow> length (buf sc') \<le> length (buf sc)"
  by (auto simp: Scan_def Let_def split: if_splits)

section \<open>The generic listing parser\<close>

text \<open>
  A \<^verbatim>\<open>time.Time\<close> field of an entry is either the zero time or the first result of
  \<^verbatim>\<open>time.Parse(timeLayout, v)\<close>, which the parsers store without looking at the error;
  \<open>TimeParse v\<close> stands for that result.
\<close>

datatype Time = ZeroTime | TimeParse string

record Entry =
  Path :: string
  Size :: int
  PackedSize :: int
  PhysicalSize :: int
  ClusterSize :: int
  Modified :: Time
  Created :: Time
  Accessed :: Time
  Attributes :: string
  CRC :: string
  Encrypted :: string
  Method :: string
  Block :: int
  Comment :: string
  VolumeIndex :: int
  Characteristics :: string
  Offset :: int
  Solid :: string
  Commented :: string
  SplitBefore :: string
  SplitAfter :: string
  AlternateStream :: string
  SymbolicLink :: string
  HardLink :: string
  CopyLink :: string
  Checksum :: string
  NTSecurity :: string
  Folder :: string
  HostOS :: string
  Version :: string
  User :: string
  Group :: string
  Mode :: string
  Type :: string

text \<open>The value of \<^verbatim>\<open>var e Entry\<close>.\<close>

definition zeroEntry :: Entry where
  "zeroEntry =
     \<lparr>Path = [], Size = 0, PackedSize = 0, PhysicalSize = 0, ClusterSize = 0,
      Modified = ZeroTime, Created = ZeroTime, Accessed = ZeroTime,
      Attributes = [], CRC = [], Encrypted = [], Method = [], Block = 0, Comment = [],
      VolumeIndex = 0, Characteristics = [], Offset = 0, Solid = [], Commented = [],
      SplitBefore = [], SplitAfter = [], AlternateStream = [], SymbolicLink = [],
      HardLink = [], CopyLink = [], Checksum = [], NTSecurity = [], Folder = [],
      HostOS = [], Version = [], User = [], Group = [], Mode = [], Type = []\<rparr>"

definition RpmSep :: string where
  "RpmSep = ''--''"

definition NormalSep :: string where
  "NormalSep = ''----------''"

text \<open>
  \<^verbatim>\<open>advanceToFirstEntry\<close>: the loop over \<^verbatim>\<open>scanner.Scan()\<close> with its counter, then the
  check of \<^verbatim>\<open>scanner.Err()\<close>. The result is the error (\<open>None\<close> for \<^verbatim>\<open>nil\<close>) and the
  scanner as the call leaves it.
\<close>

function advanceToFirstEntry_loop :: "Scanner \<Rightarrow> nat \<Rightarrow> error option \<times> Scanner" where
  "advanceToFirstEntry_loop sc rpmSepCount =
     (case Scan sc of
        (None, sc') \<Rightarrow>
          (case Err sc' of None \<Rightarrow> (Some ErrNoEntries, sc') | Some e \<Rightarrow> (Some e, sc'))
      | (Some s, sc') \<Rightarrow>
          (let rpmSepCount' = (if s = RpmSep then rpmSepCount + 1 else rpmSepCount)
           in if rpmSepCount' = 2 then (None, sc')
              else if s = NormalSep then (None, sc')
              else advanceToFirstEntry_loop sc' rpmSepCount'))"
  by pat_completeness auto
termination
  by (relation "measure (\<lambda>(sc, n). length (buf sc))") (auto dest: Scan_Some_shorter [OF sym])

definition advanceToFirstEntry :: "Scanner \<Rightarrow> error option \<times> Scanner" where
  "advanceToFirstEntry sc = advanceToFirstEntry_loop sc 0"

text \<open>
  \<^verbatim>\<open>getEntryLines\<close>: the trimmed lines up to a blank line, the separator line or the end
  of the input; \<^verbatim>\<open>nil\<close> and the error when the scanner has one. Both packages have
  this function with the same text; the constant \<^verbatim>\<open>NormalSep\<close> of the package is its first
  argument here.
\<close>

function getEntryLines_loop ::
  "string \<Rightarrow> Scanner \<Rightarrow> string list \<Rightarrow> string list \<times> Scanner" where
  "getEntryLines_loop sep sc res =
     (case Scan sc of
        (None, sc') \<Rightarrow> (res, sc')
      | (Some s0, sc') \<Rightarrow>
          (let s = TrimSpace s0
           in if s = [] then (res, sc')
              else if s = sep then (res, sc')
              else getEntryLines_loop sep sc' (res @ [s])))"
  by pat_completeness auto
termination
  by (relation "measure (\<lambda>(sep, sc, res). length (buf sc))")
     (auto dest: Scan_Some_shorter [OF sym])

definition getEntryLines ::
  "string \<Rightarrow> Scanner \<Rightarrow> (string list \<times> error option) \<times> Scanner" where
  "getEntryLines sep sc =
     (let (res, sc') = getEntryLines_loop sep sc []
      in case Err sc' of
           Some e \<Rightarrow> (([], Some e), sc')
         | None \<Rightarrow> ((res, None), sc'))"

text \<open>
  One turn of the loop of \<^verbatim>\<open>parseEntryLines\<close>: the entry after the line and the value of
  \<^verbatim>\<open>err\<close> that the loop tests. The cases stand in the order of the \<^verbatim>\<open>switch\<close>.
\<close>

definition parseEntryLine :: "Entry \<Rightarrow> string \<Rightarrow> Entry \<times> error option" where
  "parseEntryLine e s =
     (let parts = SplitN2 s '' =''
      in if length parts \<noteq> 2 then (e, Some (ErrUnexpectedLine (length parts) s))
         else
           let name = ToLower (parts ! 0);
               v0 = TrimSpace (parts ! 1);
               v = (if v0 = [] then ''0'' else v0)
           in if name = ''path'' then
                (e\<lparr>Path := v\<rparr>, if v = [] then Some ErrPathEmpty else None)
              else if name = ''size'' then
                (e\<lparr>Size := fst (ParseInt v)\<rparr>, snd (ParseInt v))
              else if name = ''packed size'' then
                (if v \<noteq> [] then (e\<lparr>PackedSize := fst (ParseInt v)\<rparr>, snd (ParseInt v))
                 else (e\<lparr>PackedSize := - 1\<rparr>, None))
              else if name = ''modified'' then (e\<lparr>Modified := TimeParse v\<rparr>, None)
              else if name = ''created'' then (e\<lparr>Created := TimeParse v\<rparr>, None)
              else if name = ''accessed'' then (e\<lparr>Accessed := TimeParse v\<rparr>, None)
              else if name = ''attributes'' then (e\<lparr>Attributes := v\<rparr>, None)
              else if name = ''crc'' then (e\<lparr>CRC := v\<rparr>, None)
              else if name = ''encrypted'' then (e\<lparr>Encrypted := v\<rparr>, None)
              else if name = ''method'' then (e\<lparr>Method := v\<rparr>, None)
              else if name = ''block'' then (e\<lparr>Block := fst (Atoi v)\<rparr>, snd (Atoi v))
              else if name = ''comment'' then (e\<lparr>Comment := v\<rparr>, None)
              else if name = ''volume index'' then
                (e\<lparr>VolumeIndex := fst (Atoi v)\<rparr>, snd (Atoi v))
              else if name = ''solid'' then (e\<lparr>Solid := v\<rparr>, None)
              else if name = ''commented'' then (e\<lparr>Commented := v\<rparr>, None)
              else if name = ''split before'' then (e\<lparr>SplitBefore := v\<rparr>, None)
              else if name = ''split after'' then (e\<lparr>SplitAfter := v\<rparr>, None)
              else if name = ''folder'' then (e\<lparr>Folder := v\<rparr>, None)
              else if name = ''host os'' then (e\<lparr>HostOS := v\<rparr>, None)
              else if name = ''version'' then (e\<lparr>Version := v\<rparr>, None)
              else if name = ''alternate stream'' then (e\<lparr>AlternateStream := v\<rparr>, None)
              else if name = ''symbolic link'' then (e\<lparr>SymbolicLink := v\<rparr>, None)
              else if name = ''hard link'' then (e\<lparr>HardLink := v\<rparr>, None)
              else if name = ''copy link'' then (e\<lparr>CopyLink := v\<rparr>, None)
              else if name = ''checksum'' then (e\<lparr>Checksum := v\<rparr>, None)
              else if name = ''nt security'' then (e\<lparr>NTSecurity := v\<rparr>, None)
              else if name = ''characteristics'' then (e\<lparr>Characteristics := v\<rparr>, None)
              else if name = ''offset'' then (e\<lparr>Offset := fst (Atoi v)\<rparr>, snd (Atoi v))
              else if name = ''mode'' then (e\<lparr>Mode := v\<rparr>, None)
              else if name = ''user'' then (e\<lparr>User := v\<rparr>, None)
              else if name = ''group'' then (e\<lparr>Group := v\<rparr>, None)
              else if name = ''type'' then (e\<lparr>Type := v\<rparr>, None)
              else if name = ''physical size'' then
                (if v \<noteq> [] then
                   (let e1 = e\<lparr>PhysicalSize := fst (ParseInt v)\<rparr>
                    in (if PackedSize e1 \<le> 0 then e1\<lparr>PackedSize := PhysicalSize e1\<rparr> else e1,
                        snd (ParseInt v)))
                 else (e, None))
              else if name = ''cluster size'' then
                (if v \<noteq> [] then
                   (let e1 = e\<lparr>ClusterSize := fst (ParseInt v)\<rparr>
                    in (if Size e1 \<le> 0 then e1\<lparr>Size := ClusterSize e1\<rparr> else e1,
                        snd (ParseInt v)))
                 else (e, None))
              else (e, None))"

fun parseEntryLines_loop :: "Entry \<Rightarrow> string list \<Rightarrow> Entry \<times> error option" where
  "parseEntryLines_loop e [] = (e, None)"
| "parseEntryLines_loop e (s # ss) =
     (case parseEntryLine e s of
        (e', Some err) \<Rightarrow> (e', Some err)
      | (e', None) \<Rightarrow> parseEntryLines_loop e' ss)"

definition parseEntryLines :: "string list \<Rightarrow> Entry \<times> error option" where
  "parseEntryLines lines = parseEntryLines_loop zeroEntry lines"

text \<open>The fix-up of empty \<^verbatim>\<open>Attributes\<close> in the loop of \<^verbatim>\<open>parse7zListOutput\<close>.\<close>

definition fixupAttributes :: "Entry \<Rightarrow> Entry" where
  "fixupAttributes e =
     (if Attributes e = [] \<and> Folder e \<noteq> [] then
        (if Folder e = ''+'' then e\<lparr>Attributes := ''D''\<rparr>
         else if Folder e = ''-'' then e\<lparr>Attributes := ''A''\<rparr>
         else e)
      else e)"

text \<open>
  The loop of \<^verbatim>\<open>parse7zListOutput\<close>, with \<^verbatim>\<open>res\<close> as its second argument. Go returns the
  pair of the entries and the error; \<^verbatim>\<open>nil\<close> entries are the empty list.
\<close>

function parse7z_loop :: "Scanner \<Rightarrow> Entry list \<Rightarrow> Entry list \<times> error option" where
  "parse7z_loop sc res =
     (case getEntryLines NormalSep sc of
        ((lines, Some err), sc') \<Rightarrow> ([], Some err)
      | ((lines, None), sc') \<Rightarrow>
          if length lines = 0 then (res, None)
          else
            (case parseEntryLines lines of
               (e, Some err) \<Rightarrow> ([], Some err)
             | (e, None) \<Rightarrow> parse7z_loop sc' (res @ [fixupAttributes e])))"
  by pat_completeness auto

lemma getEntryLines_loop_length:
  "getEntryLines_loop sep sc res = (res', sc') \<Longrightarrow>
     length (buf sc') + length res' \<le> length (buf sc) + length res"
proof (induction sep sc res arbitrary: res' sc' rule: getEntryLines_loop.induct)
  case (1 sep sc res)
  show ?case
  proof (cases "Scan sc")
    case (Pair t sc1)
    show ?thesis
    proof (cases t)
      case None
      with Pair "1.prems" have "res' = res" "sc' = sc1"
        by (simp_all add: getEntryLines_loop.simps [of sep sc res])
      with Pair None show ?thesis
        using Scan_None_same_length [of sc sc1] by simp
    next
      case (Some s0)
      have shorter: "length (buf sc1) < length (buf sc)"
        using Pair Some Scan_Some_shorter by simp
      show ?thesis
      proof (cases "TrimSpace s0 = [] \<or> TrimSpace s0 = sep")
        case True
        with Pair Some "1.prems" have "res' = res" "sc' = sc1"
          by (auto simp: getEntryLines_loop.simps [of sep sc res] Let_def split: if_splits)
        with shorter show ?thesis by simp
      next
        case False
        with Pair Some "1.prems"
        have "getEntryLines_loop sep sc1 (res @ [TrimSpace s0]) = (res', sc')"
          by (simp add: getEntryLines_loop.simps [of sep sc res] Let_def)
        from "1.IH" [OF Pair [symmetric] Some refl _ _ this] False
        have "length (buf sc') + length res' \<le> length (buf sc1) + length (res @ [TrimSpace s0])"
          by simp
        with shorter show ?thesis by simp
      qed
    qed
  qed
qed

lemma getEntryLines_shorter:
  "getEntryLines sep sc = ((lines, None), sc') \<Longrightarrow> lines \<noteq> [] \<Longrightarrow>
     length (buf sc') < length (buf sc)"
proof -
  assume a: "getEntryLines sep sc = ((lines, None), sc')" and ne: "lines \<noteq> []"
  obtain res sc1 where l: "getEntryLines_loop sep sc [] = (res, sc1)"
    by (cases "getEntryLines_loop sep sc []") auto
  with a have "res = lines" "sc1 = sc'"
    by (auto simp: getEntryLines_def split: option.splits)
  with l getEntryLines_loop_length [of sep sc "[]" lines sc'] ne show ?thesis
    by (cases lines) auto
qed

termination parse7z_loop
  by (relation "measure (\<lambda>(sc, res). length (buf sc))")
     (auto dest: getEntryLines_shorter [OF sym])

definition parse7zListOutput :: "string \<Rightarrow> Entry list \<times> error option" where
  "parse7zListOutput d =
     (case advanceToFirstEntry (NewScanner d) of
        (Some err, sc) \<Rightarrow> ([], Some err)
      | (None, sc) \<Rightarrow> parse7z_loop sc [])"

subsection \<open>Notions used to state the properties\<close>

declare advanceToFirstEntry_loop.simps [simp del]
declare getEntryLines_loop.simps [simp del]
declare parse7z_loop.simps [simp del]

text \<open>The scanner reports no error other than \<^verbatim>\<open>bufio.ErrTooLong\<close>.\<close>

definition scanner_ok :: "Scanner \<Rightarrow> bool" where
  "scanner_ok sc = (serr sc = None \<or> serr sc = Some ErrTooLong)"

text \<open>The errors a line of a block can raise: a line that does not split, a number that does not convert.\<close>

definition is_line_error :: "error \<Rightarrow> bool" where
  "is_line_error err =
     (case err of NumError f x k \<Rightarrow> True | ErrUnexpectedLine n l \<Rightarrow> True | _ \<Rightarrow> False)"

text \<open>The line splits in two at \<^verbatim>\<open>" ="\<close> and its lower-cased key is \<open>name\<close>.\<close>

definition lineHasKey :: "string \<Rightarrow> string \<Rightarrow> bool" where
  "lineHasKey name s =
     (let parts = SplitN2 s '' ='' in length parts = 2 \<and> ToLower (parts ! 0) = name)"

text \<open>
  The blocks of a listing: what repeated calls of \<^verbatim>\<open>getEntryLines\<close> return, up to the
  first empty block or scanner error.
\<close>

function entryBlocks :: "string \<Rightarrow> Scanner \<Rightarrow> string list list \<times> error option" where
  "entryBlocks sep sc =
     (case getEntryLines sep sc of
        ((lines, Some err), sc') \<Rightarrow> ([], Some err)
      | ((lines, None), sc') \<Rightarrow>
          if length lines = 0 then ([], None)
          else (case entryBlocks sep sc' of (bs, err) \<Rightarrow> (lines # bs, err)))"
  by pat_completeness auto
termination
  by (relation "measure (\<lambda>(sep, sc). length (buf sc))")
     (auto dest: getEntryLines_shorter [OF sym])

declare entryBlocks.simps [simp del]

text \<open>The entry \<^verbatim>\<open>parse7zListOutput\<close> appends for a block.\<close>

definition entryOfBlock :: "string list \<Rightarrow> Entry" where
  "entryOfBlock b = fixupAttributes (fst (parseEntryLines b))"

text \<open>
  The lines of a listing: every token \<^verbatim>\<open>Scan\<close> hands out until it returns false, and
  the value of \<^verbatim>\<open>Err()\<close> then.
\<close>

function scanLines :: "Scanner \<Rightarrow> string list \<times> error option" where
  "scanLines sc =
     (case Scan sc of
        (None, sc') \<Rightarrow> ([], Err sc')
      | (Some s, sc') \<Rightarrow> (case scanLines sc' of (ls, e) \<Rightarrow> (s # ls, e)))"
  by pat_completeness auto
termination
  by (relation "measure (\<lambda>sc. length (buf sc))") (auto dest: Scan_Some_shorter [OF sym])

declare scanLines.simps [simp del]

text \<open>A listing given by its lines, each ended by a line feed.\<close>

definition listing :: "string list \<Rightarrow> string" where
  "listing ls = concat (map (\<lambda>l. l @ [CHR 0x0A]) ls)"

text \<open>The equations that evaluate the generic parser on a given listing.\<close>

lemmas eval_simps =
  listing_def NormalSep_def RpmSep_def NewScanner_def Scan_def Err_def dropCR_def
  maxScanTokenSize_def Let_def
  advanceToFirstEntry_def advanceToFirstEntry_loop.simps
  getEntryLines_def getEntryLines_loop.simps
  TrimSpace_def TrimLeftSpace_def TrimRightSpace_def spaceWidth_def spaceRunes_def
  parse7zListOutput_def parse7z_loop.simps entryBlocks.simps scanLines.simps
  parseEntryLines_def parseEntryLine_def SplitN2_def lowerByte_def lineHasKey_def
  ParseInt_def Atoi_def ParseIntFn_def ParseUint_def isDigit_def digitVal_def maxUint64_def
  fixupAttributes_def entryOfBlock_def zeroEntry_def

section \<open>The native RAR listing parser\<close>

text \<open>
  \<^verbatim>\<open>type EntryType string\<close> and the entry of package \<^verbatim>\<open>unrarwrapper\<close>. The fields that
  share a name with the generic entry carry the suffix \<open>_rar\<close>.
\<close>

type_synonym EntryType = string

record RarEntry =
  Name :: string
  Size_rar :: int
  PackedSize_rar :: int
  Ratio :: string
  Modified_rar :: Time
  Attributes_rar :: string
  CRC_rar :: string
  HostOS_rar :: string
  Compression :: string
  Flags :: string
  Type_rar :: EntryType

definition zeroRarEntry :: RarEntry where
  "zeroRarEntry =
     \<lparr>Name = [], Size_rar = 0, PackedSize_rar = 0, Ratio = [], Modified_rar = ZeroTime,
      Attributes_rar = [], CRC_rar = [], HostOS_rar = [], Compression = [], Flags = [],
      Type_rar = []\<rparr>"

definition NormalSep_rar :: string where
  "NormalSep_rar = [CHR 0x0A]"

text \<open>
  \<^verbatim>\<open>detailsRe.MatchString\<close> for the pattern \<^verbatim>\<open>^Details: RAR(.+)$\<close>: the text starts with
  \<^verbatim>\<open>Details: RAR\<close> and goes on with one byte or more, none a line feed.
\<close>

definition detailsRe_MatchString :: "string \<Rightarrow> bool" where
  "detailsRe_MatchString s =
     (take 12 s = ''Details: RAR'' \<and> drop 12 s \<noteq> [] \<and> CHR 0x0A \<notin> set (drop 12 s))"

text \<open>
  \<^verbatim>\<open>advanceToFirstEntry\<close> of the native parser. After the details line it calls
  \<^verbatim>\<open>scanner.Scan()\<close> once more and drops the result.
\<close>

function advanceToFirstEntry_rar :: "Scanner \<Rightarrow> error option \<times> Scanner" where
  "advanceToFirstEntry_rar sc =
     (case Scan sc of
        (None, sc') \<Rightarrow>
          (case Err sc' of None \<Rightarrow> (Some ErrNoEntries, sc') | Some e \<Rightarrow> (Some e, sc'))
      | (Some s, sc') \<Rightarrow>
          if detailsRe_MatchString s then (None, snd (Scan sc'))
          else advanceToFirstEntry_rar sc')"
  by pat_completeness auto
termination
  by (relation "measure (\<lambda>sc. length (buf sc))") (auto dest: Scan_Some_shorter [OF sym])

declare advanceToFirstEntry_rar.simps [simp del]

text \<open>One turn of the loop of \<^verbatim>\<open>parseEntryLines\<close> of the native parser.\<close>

definition parseEntryLine_rar :: "RarEntry \<Rightarrow> string \<Rightarrow> RarEntry \<times> error option" where
  "parseEntryLine_rar e s =
     (let parts = SplitN2 s '': ''
      in if length parts \<noteq> 2 then (e, Some (ErrUnexpectedLine (length parts) s))
         else
           let name = ToLower (parts ! 0);
               v = TrimSpace (parts ! 1)
           in if name = ''name'' then
                (e\<lparr>Name := v\<rparr>, if v = [] then Some ErrNameEmpty else None)
              else if name = ''type'' then (e\<lparr>Type_rar := v\<rparr>, None)
              else if name = ''size'' then
                (e\<lparr>Size_rar := fst (ParseInt v)\<rparr>, snd (ParseInt v))
              else if name = ''packed size'' then
                (if v \<noteq> [] then (e\<lparr>PackedSize_rar := fst (ParseInt v)\<rparr>, snd (ParseInt v))
                 else (e\<lparr>PackedSize_rar := - 1\<rparr>, None))
              else if name = ''ratio'' then (e\<lparr>Ratio := v\<rparr>, None)
              else if name = ''mtime'' then (e\<lparr>Modified_rar := TimeParse v\<rparr>, None)
              else if name = ''attributes'' then (e\<lparr>Attributes_rar := v\<rparr>, None)
              else if name = ''crc32'' then (e\<lparr>CRC_rar := v\<rparr>, None)
              else if name = ''host os'' then (e\<lparr>HostOS_rar := v\<rparr>, None)
              else if name = ''compression'' then (e\<lparr>Compression := v\<rparr>, None)
              else if name = ''flags'' then (e\<lparr>Flags := v\<rparr>, None)
              else (e, None))"

fun parseEntryLines_rar_loop :: "RarEntry \<Rightarrow> string list \<Rightarrow> RarEntry \<times> error option" where
  "parseEntryLines_rar_loop e [] = (e, None)"
| "parseEntryLines_rar_loop e (s # ss) =
     (case parseEntryLine_rar e s of
        (e', Some err) \<Rightarrow> (e', Some err)
      | (e', None) \<Rightarrow> parseEntryLines_rar_loop e' ss)"

definition parseEntryLines_rar :: "string list \<Rightarrow> RarEntry \<times> error option" where
  "parseEntryLines_rar lines = parseEntryLines_rar_loop zeroRarEntry lines"

text \<open>The message \<^verbatim>\<open>slog.Error\<close> writes for a skipped block.\<close>

definition skipMessage :: string where
  "skipMessage = ''skip Name field empty item, which maybe invalid''"

text \<open>
  The loop of \<^verbatim>\<open>parseUnRARListOutput\<close>, with \<^verbatim>\<open>res\<close> and the messages logged so far as
  arguments (\<open>flds\<close> is \<^verbatim>\<open>fields\<close>). The result is the entries, the error and the log.
\<close>

function parseUnRAR_loop ::
  "Scanner \<Rightarrow> RarEntry list \<Rightarrow> string list \<Rightarrow> RarEntry list \<times> error option \<times> string list" where
  "parseUnRAR_loop sc res log =
     (case getEntryLines NormalSep_rar sc of
        ((flds, Some err), sc') \<Rightarrow> ([], Some err, log)
      | ((flds, None), sc') \<Rightarrow>
          if length flds = 0 then (res, None, log)
          else
            (case parseEntryLines_rar flds of
               (e, Some err) \<Rightarrow> ([], Some err, log)
             | (e, None) \<Rightarrow>
                 if Name e = [] then parseUnRAR_loop sc' res (log @ [skipMessage])
                 else parseUnRAR_loop sc' (res @ [e]) log))"
  by pat_completeness auto
termination
  by (relation "measure (\<lambda>(sc, res, log). length (buf sc))")
     (auto dest: getEntryLines_shorter [OF sym])

declare parseUnRAR_loop.simps [simp del]

definition parseUnRARListOutput :: "string \<Rightarrow> RarEntry list \<times> error option \<times> string list" where
  "parseUnRARListOutput d =
     (case advanceToFirstEntry_rar (NewScanner d) of
        (Some err, sc) \<Rightarrow> ([], Some err, [])
      | (None, sc) \<Rightarrow> parseUnRAR_loop sc [] [])"

text \<open>The line splits in two at \<^verbatim>\<open>": "\<close> and its lower-cased key is \<open>name\<close>.\<close>

definition lineHasKey_rar :: "string \<Rightarrow> string \<Rightarrow> bool" where
  "lineHasKey_rar name s =
     (let parts = SplitN2 s '': '' in length parts = 2 \<and> ToLower (parts ! 0) = name)"

text \<open>The block has a \<^verbatim>\<open>Name\<close> line.\<close>

definition blockHasName :: "string list \<Rightarrow> bool" where
  "blockHasName b = list_ex (lineHasKey_rar ''name'') b"

text \<open>The equations that evaluate the native parser on a given listing.\<close>

lemmas eval_rar_simps =
  NormalSep_rar_def detailsRe_MatchString_def advanceToFirstEntry_rar.simps
  parseEntryLine_rar_def parseEntryLines_rar_def skipMessage_def parseUnRAR_loop.simps
  parseUnRARListOutput_def lineHasKey_rar_def blockHasName_def zeroRarEntry_def

section \<open>The natural-order comparator\<close>

text \<open>
  \<^verbatim>\<open>chunkify\<close>: all matches of \<^verbatim>\<open>(\d+|\D+)\<close>, the maximal runs of digits and of other
  bytes, in order. A digit is one ASCII byte, so the runs of bytes are the runs of runes.
\<close>

function chunkify :: "string \<Rightarrow> string list" where
  "chunkify [] = []"
| "chunkify (c # cs) =
     (c # takeWhile (\<lambda>x. isDigit x = isDigit c) cs) #
     chunkify (dropWhile (\<lambda>x. isDigit x = isDigit c) cs)"
  by pat_completeness auto
termination
  by (relation "measure length") (auto simp: length_dropWhile_le less_Suc_eq_le)

text \<open>The order \<^verbatim>\<open><\<close> of Go strings: lexicographic on the bytes.\<close>

fun stringLess :: "string \<Rightarrow> string \<Rightarrow> bool" where
  "stringLess [] [] = False"
| "stringLess [] (y # ys) = True"
| "stringLess (x # xs) [] = False"
| "stringLess (x # xs) (y # ys) =
     ((of_char x :: nat) < of_char y \<or> (x = y \<and> stringLess xs ys))"

text \<open>
  The loop \<^verbatim>\<open>for i := range chunksA\<close> of \<^verbatim>\<open>naturalCompare\<close>, from index \<open>i\<close> on, and the
  \<^verbatim>\<open>return 1\<close> after it.
\<close>

function naturalCompare_loop :: "string list \<Rightarrow> string list \<Rightarrow> nat \<Rightarrow> int" where
  "naturalCompare_loop chunksA chunksB i =
     (let nChunksA = length chunksA; nChunksB = length chunksB
      in if i \<ge> nChunksA then 1
         else if i \<ge> nChunksB then 1
         else
           let (aInt, aErr) = Atoi (chunksA ! i);
               (bInt, bErr) = Atoi (chunksB ! i)
           in if aErr = None \<and> bErr = None then
                (if aInt = bInt then
                   (if i = nChunksA - 1 then - 1
                    else if i = nChunksB - 1 then 1
                    else naturalCompare_loop chunksA chunksB (i + 1))
                 else if aInt < bInt then - 1 else 1)
              else if chunksA ! i = chunksB ! i then
                (if i = nChunksA - 1 then - 1
                 else if i = nChunksB - 1 then 1
                 else naturalCompare_loop chunksA chunksB (i + 1))
              else if stringLess (chunksA ! i) (chunksB ! i) then - 1 else 1)"
  by pat_completeness auto
termination
  by (relation "measure (\<lambda>(chunksA, chunksB, i). length chunksA - i)") auto

declare naturalCompare_loop.simps [simp del]

definition naturalCompare :: "string \<Rightarrow> string \<Rightarrow> int" where
  "naturalCompare a b =
     (if a = b then 0 else naturalCompare_loop (chunkify a) (chunkify b) 0)"

text \<open>The equations that evaluate the comparator on given strings.\<close>

lemmas eval_cmp_simps =
  naturalCompare_def naturalCompare_loop.simps Let_def isDigit_def
  Atoi_def ParseIntFn_def ParseUint_def digitVal_def maxUint64_def

section \<open>The multi-volume resolver\<close>

subsection \<open>Paths of the Go standard library\<close>

text \<open>
  The functions of \<^verbatim>\<open>path/filepath\<close> the resolver calls, for a system whose separator is
  the slash and whose paths have no volume name. \<open>splitOn\<close> cuts a string at every
  occurrence of a byte; \<open>joinWith\<close> is \<^verbatim>\<open>strings.Join\<close> with a one-byte separator.
\<close>

fun splitOn :: "char \<Rightarrow> string \<Rightarrow> string list" where
  "splitOn c [] = [[]]"
| "splitOn c (x # xs) =
     (if x = c then [] # splitOn c xs
      else (case splitOn c xs of [] \<Rightarrow> [[x]] | e # es \<Rightarrow> (x # e) # es))"

fun joinWith :: "char \<Rightarrow> string list \<Rightarrow> string" where
  "joinWith c [] = []"
| "joinWith c [e] = e"
| "joinWith c (e # es) = e @ c # joinWith c es"

definition IsAbs :: "string \<Rightarrow> bool" where
  "IsAbs path = (take 1 path = ''/'')"

text \<open>
  \<^verbatim>\<open>filepath.Clean\<close>, element by element. \<open>out\<close> is the cleaned path so far, last element
  first. An empty element and \<^verbatim>\<open>.\<close> are dropped; \<^verbatim>\<open>..\<close> removes the element before it when
  there is one to remove, is kept at the front of a path that is not rooted, and is
  dropped at the root; every other element is kept.
\<close>

fun cleanElems :: "bool \<Rightarrow> string list \<Rightarrow> string list \<Rightarrow> string list" where
  "cleanElems rooted out [] = rev out"
| "cleanElems rooted out (e # es) =
     (if e = [] \<or> e = ''.'' then cleanElems rooted out es
      else if e = ''..'' then
        (if out \<noteq> [] \<and> hd out \<noteq> ''..'' then cleanElems rooted (tl out) es
         else if \<not> rooted then cleanElems rooted (''..'' # out) es
         else cleanElems rooted out es)
      else cleanElems rooted (e # out) es)"

definition Clean :: "string \<Rightarrow> string" where
  "Clean path =
     (if path = [] then ''.''
      else
        let rooted = (hd path = CHR ''/'');
            out = cleanElems rooted [] (splitOn CHR ''/'' path)
        in if rooted then CHR ''/'' # joinWith CHR ''/'' out
           else if out = [] then ''.''
           else joinWith CHR ''/'' out)"

text \<open>\<^verbatim>\<open>filepath.Join\<close>: the elements from the first non-empty one on, joined and cleaned.\<close>

definition Join :: "string list \<Rightarrow> string" where
  "Join elem =
     (case dropWhile (\<lambda>e. e = []) elem of
        [] \<Rightarrow> []
      | es \<Rightarrow> Clean (joinWith CHR ''/'' es))"

text \<open>\<^verbatim>\<open>filepath.Ext\<close>: the text from the last dot of the last element on.\<close>

definition Ext :: "string \<Rightarrow> string" where
  "Ext path =
     (let r = takeWhile (\<lambda>c. c \<noteq> CHR ''/'') (rev path)
      in if CHR ''.'' \<in> set r then CHR ''.'' # rev (takeWhile (\<lambda>c. c \<noteq> CHR ''.'') r)
         else [])"

text \<open>\<^verbatim>\<open>filepath.Base\<close>: the last element, after the trailing slashes are dropped.\<close>

definition Base :: "string \<Rightarrow> string" where
  "Base path =
     (if path = [] then ''.''
      else
        let p = rev (dropWhile (\<lambda>c. c = CHR ''/'') (rev path));
            b = rev (takeWhile (\<lambda>c. c \<noteq> CHR ''/'') (rev p))
        in if b = [] then ''/'' else b)"

text \<open>\<^verbatim>\<open>filepath.Dir\<close>: the path up to its last slash, cleaned.\<close>

definition Dir :: "string \<Rightarrow> string" where
  "Dir path = Clean (rev (dropWhile (\<lambda>c. c \<noteq> CHR ''/'') (rev path)))"

text \<open>
  What the resolver reads from the operating system: the result of \<^verbatim>\<open>os.Getwd\<close> (\<open>None\<close>
  when it fails) and the result of \<^verbatim>\<open>filepath.Glob\<close> for a pattern, whose error the resolver
  drops.
\<close>

record OS =
  getwd :: "string option"
  glob :: "string \<Rightarrow> string list"

text \<open>\<^verbatim>\<open>filepath.Abs\<close>.\<close>

definition Abs :: "OS \<Rightarrow> string \<Rightarrow> string \<times> error option" where
  "Abs os path =
     (if IsAbs path then (Clean path, None)
      else (case getwd os of
              None \<Rightarrow> ([], Some ErrGetwd)
            | Some wd \<Rightarrow> (Join [wd, path], None)))"

subsection \<open>Sorting\<close>

text \<open>
  \<^verbatim>\<open>slices.SortFunc\<close> sorts a slice of at most twelve elements by insertion, moving each
  element to the left while the comparator puts it before its left neighbour.
  \<open>insertionStep\<close> is that inner loop; its list is the part of the slice to the left of
  the element, last element first. For a longer slice Go runs a pattern-defeating
  quicksort; when the comparator is a strict total order on the elements, the case the
  properties below are about, both give the one sorted arrangement.
\<close>

fun insertionStep :: "('a \<Rightarrow> 'a \<Rightarrow> int) \<Rightarrow> 'a \<Rightarrow> 'a list \<Rightarrow> 'a list" where
  "insertionStep cmp x [] = [x]"
| "insertionStep cmp x (y # ys) =
     (if cmp x y < 0 then y # insertionStep cmp x ys else x # y # ys)"

definition SortFunc :: "'a list \<Rightarrow> ('a \<Rightarrow> 'a \<Rightarrow> int) \<Rightarrow> 'a list" where
  "SortFunc data cmp = rev (foldl (\<lambda>left x. insertionStep cmp x left) [] data)"

subsection \<open>The resolver\<close>

text \<open>
  \<^verbatim>\<open>rarMultiPartRx.FindStringSubmatch\<close> for the pattern
  \<^verbatim>\<open>(?mi)^(.+)\.part([0-9]+)(\.rar)$\<close>. With the flag \<^verbatim>\<open>m\<close> the pattern matches a whole line
  of the text, and the first line that matches is taken. A line matches when it ends
  with \<^verbatim>\<open>.rar\<close> in any case, has a run of digits before that, \<^verbatim>\<open>.part\<close> in any case before
  the digits and one byte or more before that. \<open>matchLine\<close> returns the match and its three
  groups, or the empty list.
\<close>

definition matchLine :: "string \<Rightarrow> string list" where
  "matchLine l =
     (let ext = drop (length l - 4) l;
          rest = take (length l - 4) l;
          num = rev (takeWhile isDigit (rev rest));
          pre = take (length rest - length num) rest;
          dotpart = drop (length pre - 5) pre;
          bname = take (length pre - 5) pre
      in if map lowerByte ext = ''.rar'' \<and> num \<noteq> [] \<and> map lowerByte dotpart = ''.part'' \<and>
            bname \<noteq> []
         then [l, bname, num, ext]
         else [])"

definition rarMultiPartRx_FindStringSubmatch :: "string \<Rightarrow> string list" where
  "rarMultiPartRx_FindStringSubmatch s =
     (case filter (\<lambda>m. m \<noteq> []) (map matchLine (splitOn CHR 0x0A s)) of
        [] \<Rightarrow> []
      | m # ms \<Rightarrow> m)"

text \<open>
  \<^verbatim>\<open>multiVolArchiveDetect\<close>. The record holds its four named results; \<open>detectErr\<close> is
  \<^verbatim>\<open>err\<close>.
\<close>

record Detected =
  isMultiVol :: bool
  firstVolFullPath :: string
  multiVolFiles :: "string list"
  detectErr :: "error option"

definition multiVolArchiveDetect :: "OS \<Rightarrow> string \<Rightarrow> Detected" where
  "multiVolArchiveDetect os targetPath =
     (let extLower = ToLower (Ext targetPath)
      in if extLower \<noteq> ''.rar'' then
           \<lparr>isMultiVol = False, firstVolFullPath = targetPath,
            multiVolFiles = [targetPath], detectErr = None\<rparr>
         else
           let matches = rarMultiPartRx_FindStringSubmatch (Base targetPath);
               r = (if length matches = 4 then
                      \<lparr>isMultiVol = True,
                       firstVolFullPath =
                         Join [Dir targetPath, (matches ! 1) @ ''.part'' @ ''1'' @ (matches ! 3)],
                       multiVolFiles =
                         glob os (Join [Dir targetPath,
                                        (matches ! 1) @ ''.part*'' @ (matches ! 3)]),
                       detectErr = None\<rparr>
                    else
                      \<lparr>isMultiVol = False, firstVolFullPath = targetPath,
                       multiVolFiles = [], detectErr = None\<rparr>);
               sorted = SortFunc (multiVolFiles r) naturalCompare
           in r\<lparr>multiVolFiles := sorted,
                firstVolFullPath := fst (Abs os (firstVolFullPath r)),
                detectErr := snd (Abs os (firstVolFullPath r))\<rparr>)"

text \<open>The equations that evaluate the resolver on a given path.\<close>

lemmas eval_path_simps =
  IsAbs_def Clean_def Join_def Ext_def Base_def Dir_def Abs_def SortFunc_def
  matchLine_def rarMultiPartRx_FindStringSubmatch_def multiVolArchiveDetect_def
  lowerByte_def isDigit_def Let_def

subsection \<open>Notions used to state the properties of the resolver\<close>



text \<open>
  An operating system for the examples: the working directory is \<^verbatim>\<open>/data\<close> and it holds
  three volumes of \<^verbatim>\<open>archive\<close>, which the glob returns in the order of their names.
\<close>

definition exampleOS :: OS where
  "exampleOS =
     \<lparr>getwd = Some ''/data'',
      glob = (\<lambda>pattern. if pattern = ''archive.part*.rar''
                then [''archive.part10.rar'', ''archive.part2.rar'', ''archive.part1.rar'']
                else [])\<rparr>"

lemmas eval_path_all =
  eval_path_simps eval_cmp_simps exampleOS_def

section \<open>Properties of the string functions\<close>

text \<open>
  The bound that \<open>TrimLeftSpace\<close> and \<open>TrimRightSpace\<close> pass to \<open>trimLeft\<close> is enough:
  the result starts with no white-space rune, and ends with none.
\<close>

lemma spaceWidth_positive:
  assumes "\<forall>w\<in>set runes. w \<noteq> []" and "spaceWidth runes s \<noteq> 0"
  shows "0 < spaceWidth runes s \<and> spaceWidth runes s \<le> length s"
proof -
  from assms(2) obtain w where w: "find (\<lambda>w. take (length w) s = w) runes = Some w"
    and sw: "spaceWidth runes s = length w"
    by (auto simp: spaceWidth_def split: option.splits)
  from w have mem: "w \<in> set runes" and tk: "take (length w) s = w"
    by (auto simp: find_Some_iff)
  from assms(1) mem have "w \<noteq> []" by blast
  moreover have "length (take (length w) s) = length w" by (simp only: tk)
  then have "length w \<le> length s" by simp
  ultimately show ?thesis by (simp add: sw)
qed

lemma trimLeft_enough:
  "\<forall>w\<in>set runes. w \<noteq> [] \<Longrightarrow> length s \<le> n \<Longrightarrow> spaceWidth runes (trimLeft n runes s) = 0"
proof (induction n arbitrary: s)
  case 0
  then have s: "s = []" by simp
  have "spaceWidth runes [] = 0"
    using spaceWidth_positive [OF "0.prems"(1), of "[]"] by fastforce
  with s show ?case by simp
next
  case (Suc n)
  show ?case
  proof (cases "spaceWidth runes s = 0")
    case True
    then show ?thesis by simp
  next
    case False
    from spaceWidth_positive [OF Suc.prems(1) False] Suc.prems(2)
    have "length (drop (spaceWidth runes s) s) \<le> n" by (simp del: One_nat_def) arith
    from Suc.IH [OF Suc.prems(1) this] False show ?thesis by simp
  qed
qed

lemma spaceRunes_nonempty: "\<forall>w\<in>set spaceRunes. w \<noteq> []"
  unfolding spaceRunes_def by (simp only: list.set ball_simps list.distinct simp_thms)

lemma TrimLeftSpace_done: "spaceWidth spaceRunes (TrimLeftSpace s) = 0"
  unfolding TrimLeftSpace_def
  by (rule trimLeft_enough [OF spaceRunes_nonempty order_refl])

lemma TrimRightSpace_done: "spaceWidth (map rev spaceRunes) (rev (TrimRightSpace s)) = 0"
proof -
  have ne: "\<forall>w\<in>set (map rev spaceRunes). w \<noteq> []"
    using spaceRunes_nonempty by simp
  have len: "length (rev s) \<le> length s" by simp
  show ?thesis
    unfolding TrimRightSpace_def rev_rev_ident
    by (rule trimLeft_enough [OF ne len])
qed

section \<open>Properties of the generic listing parser\<close>

lemma scanner_ok_New [simp]: "scanner_ok (NewScanner d)"
  by (simp add: scanner_ok_def NewScanner_def)

lemma Scan_ok: "scanner_ok sc \<Longrightarrow> Scan sc = (t, sc') \<Longrightarrow> scanner_ok sc'"
  by (auto simp: Scan_def scanner_ok_def Let_def split: if_splits)

lemma advance_loop_ok:
  "scanner_ok sc \<Longrightarrow> advanceToFirstEntry_loop sc n = (r, sc') \<Longrightarrow>
     scanner_ok sc' \<and> r \<in> {None, Some ErrNoEntries, Some ErrTooLong}"
proof (induction sc n arbitrary: r sc' rule: advanceToFirstEntry_loop.induct)
  case (1 sc n)
  obtain t sc1 where sc: "Scan sc = (t, sc1)" by (cases "Scan sc") auto
  have ok1: "scanner_ok sc1" using Scan_ok [OF "1.prems"(1) sc] .
  show ?case
  proof (cases t)
    case None
    with sc "1.prems"(2) ok1 show ?thesis
      by (auto simp: advanceToFirstEntry_loop.simps [of sc n] Err_def scanner_ok_def
               split: option.splits)
  next
    case (Some s)
    let ?n = "if s = RpmSep then n + 1 else n"
    show ?thesis
    proof (cases "?n = 2 \<or> s = NormalSep")
      case True
      with sc Some "1.prems"(2) ok1 show ?thesis
        by (auto simp: advanceToFirstEntry_loop.simps [of sc n] Let_def split: if_splits)
    next
      case False
      with sc Some "1.prems"(2)
      have "advanceToFirstEntry_loop sc1 ?n = (r, sc')"
        by (auto simp: advanceToFirstEntry_loop.simps [of sc n] Let_def split: if_splits)
      with "1.IH" [OF sc [symmetric] Some refl _ _ ok1] False show ?thesis
        by auto
    qed
  qed
qed

lemma getEntryLines_loop_ok:
  "scanner_ok sc \<Longrightarrow> getEntryLines_loop sep sc res = (res', sc') \<Longrightarrow> scanner_ok sc'"
proof (induction sep sc res arbitrary: res' sc' rule: getEntryLines_loop.induct)
  case (1 sep sc res)
  obtain t sc1 where sc: "Scan sc = (t, sc1)" by (cases "Scan sc") auto
  have ok1: "scanner_ok sc1" using Scan_ok [OF "1.prems"(1) sc] .
  show ?case
  proof (cases t)
    case None
    with sc "1.prems"(2) ok1 show ?thesis
      by (simp add: getEntryLines_loop.simps [of sep sc res])
  next
    case (Some s0)
    show ?thesis
    proof (cases "TrimSpace s0 = [] \<or> TrimSpace s0 = sep")
      case True
      with sc Some "1.prems"(2) ok1 show ?thesis
        by (auto simp: getEntryLines_loop.simps [of sep sc res] Let_def split: if_splits)
    next
      case False
      with sc Some "1.prems"(2)
      have "getEntryLines_loop sep sc1 (res @ [TrimSpace s0]) = (res', sc')"
        by (simp add: getEntryLines_loop.simps [of sep sc res] Let_def)
      with "1.IH" [OF sc [symmetric] Some refl _ _ ok1] False show ?thesis
        by simp
    qed
  qed
qed

lemma getEntryLines_ok:
  assumes "scanner_ok sc" and "getEntryLines sep sc = ((ls, e), sc')"
  shows "scanner_ok sc'" and "e = None \<or> e = Some ErrTooLong"
    and "e \<noteq> None \<Longrightarrow> ls = []"
proof -
  obtain res sc1 where l: "getEntryLines_loop sep sc [] = (res, sc1)"
    by (cases "getEntryLines_loop sep sc []") auto
  have ok1: "scanner_ok sc1" using getEntryLines_loop_ok [OF assms(1) l] .
  from assms(2) l have sc': "sc' = sc1"
    by (auto simp: getEntryLines_def split: option.splits)
  with ok1 show "scanner_ok sc'" by simp
  from assms(2) l ok1 show "e = None \<or> e = Some ErrTooLong"
    by (auto simp: getEntryLines_def Err_def scanner_ok_def split: option.splits)
  from assms(2) l show "e \<noteq> None \<Longrightarrow> ls = []"
    by (auto simp: getEntryLines_def split: option.splits)
qed

lemma is_line_error_simps [simp]:
  "is_line_error (NumError f x k)" "is_line_error (ErrUnexpectedLine n l)"
  "\<not> is_line_error ErrNoEntries" "\<not> is_line_error ErrTooLong"
  "\<not> is_line_error ErrPathEmpty" "\<not> is_line_error ErrNameEmpty"
  "\<not> is_line_error ErrGetwd"
  by (simp_all add: is_line_error_def)

lemma ParseIntFn_error: "snd (ParseIntFn fn s) = Some err \<Longrightarrow> is_line_error err"
  by (auto simp: ParseIntFn_def Let_def split: if_splits prod.splits)

lemma parseEntryLine_error: "snd (parseEntryLine e s) = Some err \<Longrightarrow> is_line_error err"
  unfolding parseEntryLine_def Let_def ParseInt_def Atoi_def
  by (auto split: if_splits dest: ParseIntFn_error)

lemma parseEntryLines_loop_error:
  "snd (parseEntryLines_loop e ls) = Some err \<Longrightarrow> is_line_error err"
proof (induction ls arbitrary: e)
  case Nil
  then show ?case by simp
next
  case (Cons s ss)
  obtain e1 r where p: "parseEntryLine e s = (e1, r)" by (cases "parseEntryLine e s") auto
  show ?case
  proof (cases r)
    case None
    with p Cons.prems have "snd (parseEntryLines_loop e1 ss) = Some err" by simp
    then show ?thesis by (rule Cons.IH)
  next
    case (Some err')
    with p Cons.prems have "err' = err" by simp
    with p Some parseEntryLine_error [of e s err] show ?thesis by simp
  qed
qed

lemma parseEntryLines_error: "snd (parseEntryLines ls) = Some err \<Longrightarrow> is_line_error err"
  unfolding parseEntryLines_def by (rule parseEntryLines_loop_error)

lemma parseEntryLine_Path:
  "parseEntryLine e s = (e', None) \<Longrightarrow>
     (if lineHasKey ''path'' s then Path e' \<noteq> [] else Path e' = Path e)"
  unfolding parseEntryLine_def lineHasKey_def Let_def
  by (auto split: if_splits)

lemma parseEntryLine_splits:
  "parseEntryLine e s = (e', None) \<Longrightarrow> length (SplitN2 s '' ='') = 2"
  unfolding parseEntryLine_def Let_def
  by (auto split: if_splits)

lemma parseEntryLines_loop_splits:
  "snd (parseEntryLines_loop e ls) = None \<Longrightarrow> \<forall>s\<in>set ls. length (SplitN2 s '' ='') = 2"
proof (induction ls arbitrary: e)
  case Nil
  then show ?case by simp
next
  case (Cons s ss)
  obtain e1 r where p: "parseEntryLine e s = (e1, r)" by (cases "parseEntryLine e s") auto
  with Cons.prems have r: "r = None" by (cases r) auto
  with p Cons.prems have "snd (parseEntryLines_loop e1 ss) = None" by simp
  from Cons.IH [OF this] parseEntryLine_splits p r show ?case by auto
qed

lemma parseEntryLines_loop_Path:
  "snd (parseEntryLines_loop e ls) = None \<Longrightarrow>
     Path e \<noteq> [] \<or> (\<exists>s\<in>set ls. lineHasKey ''path'' s) \<Longrightarrow>
     Path (fst (parseEntryLines_loop e ls)) \<noteq> []"
proof (induction ls arbitrary: e)
  case Nil
  then show ?case by simp
next
  case (Cons s ss)
  obtain e1 r where p: "parseEntryLine e s = (e1, r)" by (cases "parseEntryLine e s") auto
  with Cons.prems(1) have r: "r = None" by (cases r) auto
  with p Cons.prems(1) have ok: "snd (parseEntryLines_loop e1 ss) = None" by simp
  from p r have step: "if lineHasKey ''path'' s then Path e1 \<noteq> [] else Path e1 = Path e"
    using parseEntryLine_Path by simp
  with Cons.prems(2) have "Path e1 \<noteq> [] \<or> (\<exists>s\<in>set ss. lineHasKey ''path'' s)"
    by (auto split: if_splits)
  from Cons.IH [OF ok this] p r show ?case by simp
qed

lemma fixupAttributes_Path [simp]: "Path (fixupAttributes e) = Path e"
  by (simp add: fixupAttributes_def)

lemma parse7z_loop_blocks:
  "parse7z_loop sc res = (es, None) \<Longrightarrow>
     \<exists>bs. entryBlocks NormalSep sc = (bs, None) \<and> (\<forall>b\<in>set bs. snd (parseEntryLines b) = None) \<and>
          es = res @ map entryOfBlock bs"
proof (induction sc res arbitrary: es rule: parse7z_loop.induct)
  case (1 sc res)
  obtain ls r sc1 where g: "getEntryLines NormalSep sc = ((ls, r), sc1)"
    by (cases "getEntryLines NormalSep sc") auto
  from g "1.prems" have r: "r = None"
    by (cases r) (auto simp: parse7z_loop.simps [of sc res])
  show ?case
  proof (cases "ls = []")
    case True
    with g r "1.prems" have "es = res"
      by (simp add: parse7z_loop.simps [of sc res])
    moreover from g r True have "entryBlocks NormalSep sc = ([], None)"
      by (simp add: entryBlocks.simps [of NormalSep sc])
    ultimately show ?thesis by simp
  next
    case False
    obtain e0 q where p: "parseEntryLines ls = (e0, q)"
      by (cases "parseEntryLines ls") auto
    from g r False p "1.prems" have q: "q = None"
      by (cases q) (auto simp: parse7z_loop.simps [of sc res])
    from g r False p q "1.prems"
    have rec: "parse7z_loop sc1 (res @ [fixupAttributes e0]) = (es, None)"
      by (simp add: parse7z_loop.simps [of sc res])
    have "\<exists>bs. entryBlocks NormalSep sc1 = (bs, None) \<and> (\<forall>b\<in>set bs. snd (parseEntryLines b) = None) \<and>
          es = (res @ [fixupAttributes e0]) @ map entryOfBlock bs"
      by (rule "1.IH" [OF g [symmetric] refl r _ p [symmetric] q rec]) (use False in simp)
    then obtain bs where bs: "entryBlocks NormalSep sc1 = (bs, None)"
      "\<forall>b\<in>set bs. snd (parseEntryLines b) = None"
      "es = (res @ [fixupAttributes e0]) @ map entryOfBlock bs" by blast
    from g r False bs(1) have "entryBlocks NormalSep sc = (ls # bs, None)"
      by (simp add: entryBlocks.simps [of NormalSep sc])
    with bs p q show ?thesis by (simp add: entryOfBlock_def)
  qed
qed

lemma parse7z_loop_rejects:
  "entryBlocks NormalSep sc = (bs, r) \<Longrightarrow> \<exists>b\<in>set bs. snd (parseEntryLines b) \<noteq> None \<Longrightarrow>
     \<exists>err. parse7z_loop sc res = ([], Some err)"
proof (induction sc res arbitrary: bs r rule: parse7z_loop.induct)
  case (1 sc res)
  obtain ls g sc1 where gl: "getEntryLines NormalSep sc = ((ls, g), sc1)"
    by (cases "getEntryLines NormalSep sc") auto
  from gl "1.prems" have g: "g = None" and ne: "ls \<noteq> []"
    by (cases g; auto simp: entryBlocks.simps [of NormalSep sc] split: if_splits)+
  obtain bs1 r1 where b1: "entryBlocks NormalSep sc1 = (bs1, r1)" by (cases "entryBlocks NormalSep sc1") auto
  with gl g ne "1.prems"(1) have bs: "bs = ls # bs1"
    by (auto simp: entryBlocks.simps [of NormalSep sc])
  obtain e0 q where p: "parseEntryLines ls = (e0, q)"
    by (cases "parseEntryLines ls") auto
  show ?case
  proof (cases q)
    case (Some err)
    with gl g ne p show ?thesis by (simp add: parse7z_loop.simps [of sc res])
  next
    case None
    with bs p "1.prems"(2) have ex: "\<exists>b\<in>set bs1. snd (parseEntryLines b) \<noteq> None" by auto
    have "\<exists>err. parse7z_loop sc1 (res @ [fixupAttributes e0]) = ([], Some err)"
      by (rule "1.IH" [OF gl [symmetric] refl g _ p [symmetric] None b1 ex]) (use ne in simp)
    with gl g ne p None show ?thesis by (simp add: parse7z_loop.simps [of sc res])
  qed
qed

lemma parse7z_loop_error:
  "scanner_ok sc \<Longrightarrow> parse7z_loop sc res = (es, Some err) \<Longrightarrow>
     es = [] \<and> (err = ErrTooLong \<or> is_line_error err)"
proof (induction sc res arbitrary: es rule: parse7z_loop.induct)
  case (1 sc res)
  obtain ls g sc1 where gl: "getEntryLines NormalSep sc = ((ls, g), sc1)"
    by (cases "getEntryLines NormalSep sc") auto
  note ok = getEntryLines_ok [OF "1.prems"(1) gl]
  show ?case
  proof (cases g)
    case (Some e)
    with gl "1.prems"(2) ok(2) show ?thesis
      by (auto simp: parse7z_loop.simps [of sc res])
  next
    case None
    with gl "1.prems"(2) have ne: "ls \<noteq> []"
      by (auto simp: parse7z_loop.simps [of sc res] split: if_splits)
    obtain e0 q where p: "parseEntryLines ls = (e0, q)"
      by (cases "parseEntryLines ls") auto
    show ?thesis
    proof (cases q)
      case (Some e)
      with gl None ne p "1.prems"(2) have "es = []" "e = err"
        by (auto simp: parse7z_loop.simps [of sc res])
      with p Some parseEntryLines_error [of ls err] show ?thesis by simp
    next
      case qn: None
      with gl None ne p "1.prems"(2)
      have rec: "parse7z_loop sc1 (res @ [fixupAttributes e0]) = (es, Some err)"
        by (simp add: parse7z_loop.simps [of sc res])
      show ?thesis
        by (rule "1.IH" [OF gl [symmetric] refl None _ p [symmetric] qn ok(1) rec]) (use ne in simp)
    qed
  qed
qed

lemma advance_loop_NoEntries:
  "scanner_ok sc \<Longrightarrow> n < 2 \<Longrightarrow>
     (fst (advanceToFirstEntry_loop sc n) = Some ErrNoEntries) =
     (snd (scanLines sc) = None \<and> NormalSep \<notin> set (fst (scanLines sc)) \<and>
      n + count_list (fst (scanLines sc)) RpmSep < 2)"
proof (induction sc n rule: advanceToFirstEntry_loop.induct)
  case (1 sc n)
  obtain t sc1 where sc: "Scan sc = (t, sc1)" by (cases "Scan sc") auto
  have ok1: "scanner_ok sc1" using Scan_ok [OF "1.prems"(1) sc] .
  show ?case
  proof (cases t)
    case None
    with sc ok1 "1.prems"(2) show ?thesis
      by (auto simp: advanceToFirstEntry_loop.simps [of sc n] scanLines.simps [of sc]
                     Err_def scanner_ok_def split: option.splits)
  next
    case (Some s)
    let ?n = "if s = RpmSep then n + 1 else n"
    obtain ls e where sl: "scanLines sc1 = (ls, e)" by (cases "scanLines sc1") auto
    with sc Some have sl0: "scanLines sc = (s # ls, e)"
      by (simp add: scanLines.simps [of sc])
    show ?thesis
    proof (cases "?n = 2 \<or> s = NormalSep")
      case True
      with sc Some sl0 show ?thesis
        by (auto simp: advanceToFirstEntry_loop.simps [of sc n] Let_def split: if_splits)
    next
      case False
      with sc Some
      have eq: "advanceToFirstEntry_loop sc n = advanceToFirstEntry_loop sc1 ?n"
        by (auto simp: advanceToFirstEntry_loop.simps [of sc n] Let_def split: if_splits)
      from False "1.prems"(2) have n2: "?n < 2" by (auto split: if_splits)
      have "(fst (advanceToFirstEntry_loop sc1 ?n) = Some ErrNoEntries) =
            (snd (scanLines sc1) = None \<and> NormalSep \<notin> set (fst (scanLines sc1)) \<and>
             ?n + count_list (fst (scanLines sc1)) RpmSep < 2)"
        by (rule "1.IH" [OF sc [symmetric] Some refl _ _ ok1 n2]) (use False in auto)
      with eq sl sl0 False show ?thesis by auto
    qed
  qed
qed

lemma ParseInt_zero: "ParseInt ''0'' = (0, None)"
  by (simp add: eval_simps)

lemma parseEntryLine_never_ErrPathEmpty: "snd (parseEntryLine e s) \<noteq> Some ErrPathEmpty"
  using parseEntryLine_error [of e s ErrPathEmpty] by auto

lemma parseEntryLines_never_ErrPathEmpty: "snd (parseEntryLines ls) \<noteq> Some ErrPathEmpty"
  using parseEntryLines_error [of ls ErrPathEmpty] by auto

lemma parse7zListOutput_error:
  "parse7zListOutput d = (es, Some err) \<Longrightarrow>
     es = [] \<and> (err = ErrNoEntries \<or> err = ErrTooLong \<or> is_line_error err)"
proof -
  assume p: "parse7zListOutput d = (es, Some err)"
  obtain r sc where a: "advanceToFirstEntry_loop (NewScanner d) 0 = (r, sc)"
    by (cases "advanceToFirstEntry_loop (NewScanner d) 0") auto
  note ok = advance_loop_ok [OF scanner_ok_New a]
  show ?thesis
  proof (cases r)
    case None
    with a p have "parse7z_loop sc [] = (es, Some err)"
      by (simp add: parse7zListOutput_def advanceToFirstEntry_def)
    with parse7z_loop_error [of sc "[]" es err] ok show ?thesis by simp
  next
    case (Some e)
    with a p ok show ?thesis
      by (auto simp: parse7zListOutput_def advanceToFirstEntry_def)
  qed
qed

text \<open>
  Claim C10. In \<^verbatim>\<open>parseEntryLines\<close> of the generic parser a line whose key is
  \<^verbatim>\<open>path\<close> after lower-casing and whose value trims to the empty string stores the
  string \<^verbatim>\<open>0\<close> as the entry's \<open>Path\<close> and raises no error; the error
  \<^verbatim>\<open>path field can not be empty\<close> is returned for no line, no block and no listing.
\<close>

theorem C10_blank_path_value_is_stored_as_0:
  "(SplitN2 s '' ='' = [k, v] \<and> ToLower k = ''path'' \<and> TrimSpace v = [] \<longrightarrow>
      parseEntryLine e s = (e\<lparr>Path := ''0''\<rparr>, None))
   \<and> snd (parseEntryLine e s) \<noteq> Some ErrPathEmpty
   \<and> snd (parseEntryLines ls) \<noteq> Some ErrPathEmpty
   \<and> snd (parse7zListOutput d) \<noteq> Some ErrPathEmpty"
proof -
  have "parseEntryLine e s = (e\<lparr>Path := ''0''\<rparr>, None)"
    if "SplitN2 s '' ='' = [k, v]" "ToLower k = ''path''" "TrimSpace v = []"
    using that by (simp add: parseEntryLine_def)
  moreover have "snd (parse7zListOutput d) \<noteq> Some ErrPathEmpty"
    using parse7zListOutput_error [of d "fst (parse7zListOutput d)" ErrPathEmpty]
    by (cases "parse7zListOutput d") auto
  ultimately show ?thesis
    using parseEntryLine_never_ErrPathEmpty parseEntryLines_never_ErrPathEmpty by blast
qed

text \<open>The line \<^verbatim>\<open>Path =\<close>, as \<^verbatim>\<open>getEntryLines\<close> trims it, is such a line.\<close>

theorem C10_witness:
  "SplitN2 ''Path ='' '' ='' = [''Path'', []] \<and> ToLower ''Path'' = ''path'' \<and>
   TrimSpace [] = [] \<and>
   parseEntryLine zeroEntry ''Path ='' = (zeroEntry\<lparr>Path := ''0''\<rparr>, None)"
proof -
  have h: "SplitN2 ''Path ='' '' ='' = [''Path'', []] \<and> ToLower ''Path'' = ''path'' \<and>
           TrimSpace [] = []"
    by (simp add: eval_simps)
  with C10_blank_path_value_is_stored_as_0 [of "''Path =''" "''Path''" "[]" zeroEntry "[]" "[]"]
  show ?thesis by blast
qed

lemma parseEntryLine_PackedSize_frame:
  "\<not> lineHasKey ''packed size'' s \<Longrightarrow> \<not> lineHasKey ''physical size'' s \<Longrightarrow>
     PackedSize (fst (parseEntryLine e s)) = PackedSize e"
  unfolding parseEntryLine_def lineHasKey_def Let_def
  by (auto split: if_splits)

lemma parseEntryLines_loop_PackedSize_frame:
  "\<forall>s\<in>set ls. \<not> lineHasKey ''packed size'' s \<and> \<not> lineHasKey ''physical size'' s \<Longrightarrow>
     PackedSize (fst (parseEntryLines_loop e ls)) = PackedSize e"
proof (induction ls arbitrary: e)
  case Nil
  then show ?case by simp
next
  case (Cons s ss)
  obtain e1 r where p: "parseEntryLine e s = (e1, r)" by (cases "parseEntryLine e s") auto
  from Cons.prems have "PackedSize (fst (parseEntryLine e s)) = PackedSize e"
    by (simp add: parseEntryLine_PackedSize_frame)
  with p have e1: "PackedSize e1 = PackedSize e" by simp
  show ?case
  proof (cases r)
    case None
    with p Cons.IH [of e1] Cons.prems e1 show ?thesis by simp
  next
    case (Some err)
    with p e1 show ?thesis by simp
  qed
qed

lemma parseEntryLines_loop_append:
  "parseEntryLines_loop e (xs @ ys) =
     (case parseEntryLines_loop e xs of
        (e1, None) \<Rightarrow> parseEntryLines_loop e1 ys
      | (e1, Some err) \<Rightarrow> (e1, Some err))"
proof (induction xs arbitrary: e)
  case Nil
  then show ?case by simp
next
  case (Cons x xs)
  then show ?case by (cases "parseEntryLine e x") (auto split: option.splits)
qed

lemma parseEntryLine_blank_packed_size:
  "SplitN2 s '' ='' = [k, v] \<Longrightarrow> ToLower k = ''packed size'' \<Longrightarrow> TrimSpace v = [] \<Longrightarrow>
     parseEntryLine e s = (e\<lparr>PackedSize := 0\<rparr>, None)"
  by (simp add: parseEntryLine_def ParseInt_zero)

text \<open>
  Claim C8, as amended. In the generic dialect a line with key \<^verbatim>\<open>Packed Size\<close> whose
  value after the \<^verbatim>\<open>=\<close> is empty sets \<open>PackedSize\<close> to 0 and raises no error, and
  \<open>PackedSize\<close> is still 0 at the end of a block that parses when no later line of the
  block has the key \<^verbatim>\<open>Packed Size\<close> or \<^verbatim>\<open>Physical Size\<close>. A block in which no line has
  one of these two keys leaves \<open>PackedSize\<close> at 0, the zero value of the field, and not
  at -1.
\<close>

theorem C8_blank_packed_size_is_0_and_absent_is_0:
  "(SplitN2 s '' ='' = [k, v] \<and> ToLower k = ''packed size'' \<and> TrimSpace v = [] \<longrightarrow>
      parseEntryLine e s = (e\<lparr>PackedSize := 0\<rparr>, None))
   \<and> (SplitN2 s '' ='' = [k, v] \<and> ToLower k = ''packed size'' \<and> TrimSpace v = [] \<and>
        (\<forall>t\<in>set post. \<not> lineHasKey ''packed size'' t \<and> \<not> lineHasKey ''physical size'' t) \<and>
        snd (parseEntryLines (pre @ s # post)) = None \<longrightarrow>
      PackedSize (fst (parseEntryLines (pre @ s # post))) = 0)
   \<and> ((\<forall>t\<in>set ls. \<not> lineHasKey ''packed size'' t \<and> \<not> lineHasKey ''physical size'' t) \<longrightarrow>
      PackedSize (fst (parseEntryLines ls)) = 0)"
proof (intro conjI impI)
  assume "SplitN2 s '' ='' = [k, v] \<and> ToLower k = ''packed size'' \<and> TrimSpace v = []"
  then show "parseEntryLine e s = (e\<lparr>PackedSize := 0\<rparr>, None)"
    by (simp add: parseEntryLine_blank_packed_size)
next
  assume a: "SplitN2 s '' ='' = [k, v] \<and> ToLower k = ''packed size'' \<and> TrimSpace v = [] \<and>
        (\<forall>t\<in>set post. \<not> lineHasKey ''packed size'' t \<and> \<not> lineHasKey ''physical size'' t) \<and>
        snd (parseEntryLines (pre @ s # post)) = None"
  obtain e1 r where p: "parseEntryLines_loop zeroEntry pre = (e1, r)"
    by (cases "parseEntryLines_loop zeroEntry pre") auto
  from a have ok: "snd (parseEntryLines_loop zeroEntry (pre @ s # post)) = None"
    by (simp add: parseEntryLines_def)
  with p have r: "r = None"
    by (cases r) (auto simp: parseEntryLines_loop_append)
  from a have step: "parseEntryLine e1 s = (e1\<lparr>PackedSize := 0\<rparr>, None)"
    by (simp add: parseEntryLine_blank_packed_size)
  from p r step have "parseEntryLines_loop zeroEntry (pre @ s # post) =
      parseEntryLines_loop (e1\<lparr>PackedSize := 0\<rparr>) post"
    by (simp add: parseEntryLines_loop_append)
  moreover from a have "PackedSize (fst (parseEntryLines_loop (e1\<lparr>PackedSize := 0\<rparr>) post)) = 0"
    by (simp add: parseEntryLines_loop_PackedSize_frame)
  ultimately show "PackedSize (fst (parseEntryLines (pre @ s # post))) = 0"
    by (simp add: parseEntryLines_def)
next
  assume "\<forall>t\<in>set ls. \<not> lineHasKey ''packed size'' t \<and> \<not> lineHasKey ''physical size'' t"
  then show "PackedSize (fst (parseEntryLines ls)) = 0"
    by (simp add: parseEntryLines_def parseEntryLines_loop_PackedSize_frame zeroEntry_def)
qed

text \<open>Two blocks, one with a blank \<^verbatim>\<open>Packed Size\<close> line and one without the key.\<close>

theorem C8_witness:
  "parseEntryLine zeroEntry ''Packed Size ='' = (zeroEntry\<lparr>PackedSize := 0\<rparr>, None) \<and>
   PackedSize (fst (parseEntryLines [''Path = a'', ''Packed Size ='', ''Size = 3''])) = 0 \<and>
   PackedSize (fst (parseEntryLines [''Path = a'', ''Size = 3''])) = 0"
proof -
  have h1: "SplitN2 ''Packed Size ='' '' ='' = [''Packed Size'', []] \<and>
            ToLower ''Packed Size'' = ''packed size'' \<and> TrimSpace [] = []"
    by (simp add: eval_simps)
  have h2: "\<forall>t\<in>set [''Size = 3''].
              \<not> lineHasKey ''packed size'' t \<and> \<not> lineHasKey ''physical size'' t"
    by (simp add: eval_simps)
  have h3: "snd (parseEntryLines ([''Path = a''] @ ''Packed Size ='' # [''Size = 3''])) = None"
    by (simp add: eval_simps)
  have h4: "\<forall>t\<in>set [''Path = a'', ''Size = 3''].
              \<not> lineHasKey ''packed size'' t \<and> \<not> lineHasKey ''physical size'' t"
    by (simp add: eval_simps)
  from C8_blank_packed_size_is_0_and_absent_is_0
         [of "''Packed Size =''" "''Packed Size''" "[]" zeroEntry "[''Size = 3'']"
             "[''Path = a'']" "[''Path = a'', ''Size = 3'']"]
       h1 h2 h3 h4
  show ?thesis by simp
qed

text \<open>
  The claim as stated fails: this block has no \<^verbatim>\<open>Packed Size\<close> line, and its entry has
  \<open>PackedSize\<close> 0, not the -1 of the claim.
\<close>

theorem C8_counterexample:
  "\<not> lineHasKey ''packed size'' ''Path = a'' \<and> \<not> lineHasKey ''packed size'' ''Size = 3'' \<and>
   parseEntryLines [''Path = a'', ''Size = 3''] =
     (zeroEntry\<lparr>Path := ''a'', Size := 3\<rparr>, None) \<and>
   PackedSize (zeroEntry\<lparr>Path := ''a'', Size := 3\<rparr>) = 0 \<and>
   PackedSize (zeroEntry\<lparr>Path := ''a'', Size := 3\<rparr>) \<noteq> - 1"
  by (simp add: eval_simps)

lemma entryOfBlock_Path:
  "snd (parseEntryLines b) = None \<Longrightarrow> \<exists>s\<in>set b. lineHasKey ''path'' s \<Longrightarrow>
     Path (entryOfBlock b) \<noteq> []"
  using parseEntryLines_loop_Path [of zeroEntry b]
  by (simp add: entryOfBlock_def parseEntryLines_def)

lemma parseEntryLines_splits:
  "snd (parseEntryLines b) = None \<Longrightarrow> \<forall>s\<in>set b. length (SplitN2 s '' ='') = 2"
  using parseEntryLines_loop_splits [of zeroEntry b] by (simp add: parseEntryLines_def)

text \<open>
  Claim C1, as amended. When the generic parser returns entries, they are the entries of
  the blocks of the listing, one per block and in order; every line of every block splits
  into exactly two parts at \<^verbatim>\<open>" ="\<close>; and the entry of a block that has a \<^verbatim>\<open>Path\<close> line
  has a non-empty \<open>Path\<close> (a blank value is stored as \<^verbatim>\<open>0\<close>). A listing with a block that
  has a line which does not split in two is rejected: the parser returns an error and no
  entries.
\<close>

theorem C1_entries_come_from_blocks_whose_lines_split:
  "(parse7zListOutput d = (es, None) \<longrightarrow>
      (\<exists>sc bs. advanceToFirstEntry (NewScanner d) = (None, sc) \<and>
         entryBlocks NormalSep sc = (bs, None) \<and> es = map entryOfBlock bs \<and>
         (\<forall>b\<in>set bs. (\<forall>s\<in>set b. length (SplitN2 s '' ='') = 2) \<and>
            ((\<exists>s\<in>set b. lineHasKey ''path'' s) \<longrightarrow> Path (entryOfBlock b) \<noteq> []))))
   \<and> (advanceToFirstEntry (NewScanner d) = (None, scx) \<and> entryBlocks NormalSep scx = (bsx, r) \<and>
        (\<exists>b\<in>set bsx. \<exists>s\<in>set b. length (SplitN2 s '' ='') \<noteq> 2) \<longrightarrow>
      (\<exists>err. parse7zListOutput d = ([], Some err)))"
proof (intro conjI impI)
  assume p: "parse7zListOutput d = (es, None)"
  obtain q sc where a: "advanceToFirstEntry (NewScanner d) = (q, sc)"
    by (cases "advanceToFirstEntry (NewScanner d)") auto
  with p have q: "q = None" by (cases q) (auto simp: parse7zListOutput_def)
  with a p have "parse7z_loop sc [] = (es, None)" by (simp add: parse7zListOutput_def)
  from parse7z_loop_blocks [OF this] obtain bs where bs: "entryBlocks NormalSep sc = (bs, None)"
    "\<forall>b\<in>set bs. snd (parseEntryLines b) = None" "es = map entryOfBlock bs" by auto
  from bs(2) have "\<forall>b\<in>set bs. (\<forall>s\<in>set b. length (SplitN2 s '' ='') = 2) \<and>
            ((\<exists>s\<in>set b. lineHasKey ''path'' s) \<longrightarrow> Path (entryOfBlock b) \<noteq> [])"
    using parseEntryLines_splits entryOfBlock_Path by blast
  with a q bs(1,3) show "\<exists>sc bs. advanceToFirstEntry (NewScanner d) = (None, sc) \<and>
         entryBlocks NormalSep sc = (bs, None) \<and> es = map entryOfBlock bs \<and>
         (\<forall>b\<in>set bs. (\<forall>s\<in>set b. length (SplitN2 s '' ='') = 2) \<and>
            ((\<exists>s\<in>set b. lineHasKey ''path'' s) \<longrightarrow> Path (entryOfBlock b) \<noteq> []))"
    by blast
next
  assume a: "advanceToFirstEntry (NewScanner d) = (None, scx) \<and> entryBlocks NormalSep scx = (bsx, r) \<and>
        (\<exists>b\<in>set bsx. \<exists>s\<in>set b. length (SplitN2 s '' ='') \<noteq> 2)"
  then have "\<exists>b\<in>set bsx. snd (parseEntryLines b) \<noteq> None"
    using parseEntryLines_splits by blast
  with a parse7z_loop_rejects [of scx bsx r "[]"]
  show "\<exists>err. parse7zListOutput d = ([], Some err)"
    by (simp add: parse7zListOutput_def)
qed

text \<open>
  A listing with two blocks, the second with a blank \<^verbatim>\<open>Path\<close> value, and a listing whose
  second block is a line without \<^verbatim>\<open>" ="\<close>.
\<close>

theorem C1_witness:
  "parse7zListOutput (listing [NormalSep, ''Path = a'', [], ''Path ='']) =
     ([zeroEntry\<lparr>Path := ''a''\<rparr>, zeroEntry\<lparr>Path := ''0''\<rparr>], None)
   \<and> (\<exists>sc bs. advanceToFirstEntry
                  (NewScanner (listing [NormalSep, ''Path = a'', [], ''Path =''])) = (None, sc) \<and>
         entryBlocks NormalSep sc = (bs, None) \<and>
         [zeroEntry\<lparr>Path := ''a''\<rparr>, zeroEntry\<lparr>Path := ''0''\<rparr>] = map entryOfBlock bs \<and>
         (\<forall>b\<in>set bs. (\<forall>s\<in>set b. length (SplitN2 s '' ='') = 2) \<and>
            ((\<exists>s\<in>set b. lineHasKey ''path'' s) \<longrightarrow> Path (entryOfBlock b) \<noteq> [])))
   \<and> (\<exists>err. parse7zListOutput (listing [NormalSep, ''Path = a'', [], ''junk'']) = ([], Some err))"
proof -
  let ?d1 = "listing [NormalSep, ''Path = a'', [], ''Path ='']"
  let ?d2 = "listing [NormalSep, ''Path = a'', [], ''junk'']"
  let ?sc2 = "\<lparr>buf = listing [''Path = a'', [], ''junk''], serr = None\<rparr>"
  have h1: "parse7zListOutput ?d1 =
      ([zeroEntry\<lparr>Path := ''a''\<rparr>, zeroEntry\<lparr>Path := ''0''\<rparr>], None)"
    by (simp add: eval_simps)
  have h2: "advanceToFirstEntry (NewScanner ?d2) = (None, ?sc2)"
    by (simp add: eval_simps)
  have h3: "entryBlocks NormalSep ?sc2 = ([[''Path = a''], [''junk'']], None)"
    by (simp add: eval_simps)
  have h4: "\<exists>b\<in>set [[''Path = a''], [''junk'']]. \<exists>s\<in>set b. length (SplitN2 s '' ='') \<noteq> 2"
    by (simp add: eval_simps)
  note c1 = C1_entries_come_from_blocks_whose_lines_split
         [of ?d1 "[zeroEntry\<lparr>Path := ''a''\<rparr>, zeroEntry\<lparr>Path := ''0''\<rparr>]",
          THEN conjunct1, THEN mp, OF h1]
  note c2 = C1_entries_come_from_blocks_whose_lines_split
         [of ?d2 "[]" ?sc2 "[[''Path = a''], [''junk'']]" None,
          THEN conjunct2, THEN mp, OF conjI [OF h2 conjI [OF h3 h4]]]
  show ?thesis by (rule conjI [OF h1 conjI [OF c1 c2]])
qed

text \<open>
  The claim as stated fails: a block without a \<^verbatim>\<open>Path\<close> line is neither rejected nor
  dropped, and its entry has an empty \<open>Path\<close>.
\<close>

theorem C1_counterexample:
  "parse7zListOutput (listing [NormalSep, ''Size = 1'']) = ([zeroEntry\<lparr>Size := 1\<rparr>], None)
   \<and> Path (zeroEntry\<lparr>Size := 1\<rparr>) = []"
  by (simp add: eval_simps)

lemma parse7zListOutput_NoEntries_iff:
  "(snd (parse7zListOutput d) = Some ErrNoEntries) =
     (snd (scanLines (NewScanner d)) = None \<and>
      NormalSep \<notin> set (fst (scanLines (NewScanner d))) \<and>
      count_list (fst (scanLines (NewScanner d))) RpmSep < 2)
   \<and> (snd (parse7zListOutput d) \<noteq> None \<longrightarrow> fst (parse7zListOutput d) = [])"
proof -
  obtain r sc where a: "advanceToFirstEntry (NewScanner d) = (r, sc)"
    by (cases "advanceToFirstEntry (NewScanner d)") auto
  then have al: "advanceToFirstEntry_loop (NewScanner d) 0 = (r, sc)"
    by (simp add: advanceToFirstEntry_def)
  have ok: "scanner_ok sc" using advance_loop_ok [OF scanner_ok_New al] by simp
  have iff: "(r = Some ErrNoEntries) =
     (snd (scanLines (NewScanner d)) = None \<and>
      NormalSep \<notin> set (fst (scanLines (NewScanner d))) \<and>
      count_list (fst (scanLines (NewScanner d))) RpmSep < 2)"
    using advance_loop_NoEntries [OF scanner_ok_New, of 0 d] al by simp
  show ?thesis
  proof (cases r)
    case (Some err)
    with a iff show ?thesis by (simp add: parse7zListOutput_def)
  next
    case None
    with a have p: "parse7zListOutput d = parse7z_loop sc []"
      by (simp add: parse7zListOutput_def)
    obtain es q where l: "parse7z_loop sc [] = (es, q)" by (cases "parse7z_loop sc []") auto
    have "q \<noteq> Some ErrNoEntries" "q \<noteq> None \<longrightarrow> es = []"
      using parse7z_loop_error [OF ok, of "[]" es] l by auto
    with p l iff None show ?thesis by simp
  qed
qed

text \<open>
  Claim C7, as amended. The generic parser returns \<^verbatim>\<open>ErrNoEntries\<close> exactly when the
  scanner reads the listing to its end without an error and without finding the start
  sentinel: no line is the separator line of dashes and fewer than two lines are
  \<^verbatim>\<open>--\<close>. Whenever the parser returns an error, it returns no entries with it. When the
  sentinel is found and the first block after it is empty, the parser returns no entries
  and no error.
\<close>

theorem C7_NoEntries_exactly_when_no_start_sentinel:
  "(snd (parse7zListOutput d) = Some ErrNoEntries) =
     (snd (scanLines (NewScanner d)) = None \<and>
      NormalSep \<notin> set (fst (scanLines (NewScanner d))) \<and>
      count_list (fst (scanLines (NewScanner d))) RpmSep < 2)
   \<and> (snd (parse7zListOutput d) \<noteq> None \<longrightarrow> fst (parse7zListOutput d) = [])
   \<and> (advanceToFirstEntry (NewScanner d) = (None, sc) \<and>
       getEntryLines NormalSep sc = (([], None), sc') \<longrightarrow>
       parse7zListOutput d = ([], None))"
proof -
  have "parse7zListOutput d = ([], None)"
    if "advanceToFirstEntry (NewScanner d) = (None, sc) \<and>
        getEntryLines NormalSep sc = (([], None), sc')"
    using that by (simp add: parse7zListOutput_def parse7z_loop.simps [of sc "[]"])
  with parse7zListOutput_NoEntries_iff [of d] show ?thesis by blast
qed

text \<open>
  A listing with one \<^verbatim>\<open>--\<close> line and no line of dashes, and a listing that ends with the
  line of dashes.
\<close>

theorem C7_witness:
  "snd (parse7zListOutput (listing [''x'', RpmSep])) = Some ErrNoEntries \<and>
   snd (parse7zListOutput (listing [''x'', RpmSep])) \<noteq> None \<and>
   fst (parse7zListOutput (listing [''x'', RpmSep])) = [] \<and>
   advanceToFirstEntry (NewScanner (listing [NormalSep])) = (None, \<lparr>buf = [], serr = None\<rparr>) \<and>
   getEntryLines NormalSep \<lparr>buf = [], serr = None\<rparr> =
     (([], None), \<lparr>buf = [], serr = None\<rparr>) \<and>
   parse7zListOutput (listing [NormalSep]) = ([], None)"
proof -
  have h: "scanLines (NewScanner (listing [''x'', RpmSep])) = ([''x'', RpmSep], None)"
    by (simp add: eval_simps)
  have n: "NormalSep \<notin> set [''x'', RpmSep] \<and> count_list [''x'', RpmSep] RpmSep < 2"
    by (simp add: eval_simps)
  have a: "advanceToFirstEntry (NewScanner (listing [NormalSep])) =
             (None, \<lparr>buf = [], serr = None\<rparr>)"
    by (simp add: eval_simps)
  have g: "getEntryLines NormalSep \<lparr>buf = [], serr = None\<rparr> =
             (([], None), \<lparr>buf = [], serr = None\<rparr>)"
    by (simp add: eval_simps)
  from C7_NoEntries_exactly_when_no_start_sentinel [of "listing [''x'', RpmSep]"] h n
  have c1: "snd (parse7zListOutput (listing [''x'', RpmSep])) = Some ErrNoEntries \<and>
            snd (parse7zListOutput (listing [''x'', RpmSep])) \<noteq> None \<and>
            fst (parse7zListOutput (listing [''x'', RpmSep])) = []"
    by simp
  from C7_NoEntries_exactly_when_no_start_sentinel
         [of "listing [NormalSep]" "\<lparr>buf = [], serr = None\<rparr>" "\<lparr>buf = [], serr = None\<rparr>"] a g
  have c2: "parse7zListOutput (listing [NormalSep]) = ([], None)"
    by blast
  from c1 a g c2 show ?thesis by blast
qed

text \<open>
  The claim as stated fails: here the sentinel is found and no entry block follows it, and
  the parser returns no entries and no error.
\<close>

theorem C7_counterexample:
  "scanLines (NewScanner (listing [''7-Zip'', NormalSep])) = ([''7-Zip'', NormalSep], None) \<and>
   advanceToFirstEntry (NewScanner (listing [''7-Zip'', NormalSep])) =
     (None, \<lparr>buf = [], serr = None\<rparr>) \<and>
   entryBlocks NormalSep \<lparr>buf = [], serr = None\<rparr> = ([], None) \<and>
   parse7zListOutput (listing [''7-Zip'', NormalSep]) = ([], None)"
  by (simp add: eval_simps)

section \<open>Properties of the native RAR listing parser\<close>

lemma parseEntryLine_rar_Name:
  "parseEntryLine_rar e s = (e', None) \<Longrightarrow>
     (if lineHasKey_rar ''name'' s then Name e' \<noteq> [] else Name e' = Name e)"
  unfolding parseEntryLine_rar_def lineHasKey_rar_def Let_def
  by (auto split: if_splits)

lemma parseEntryLines_rar_loop_Name:
  "snd (parseEntryLines_rar_loop e ls) = None \<Longrightarrow>
     (Name (fst (parseEntryLines_rar_loop e ls)) = []) =
     (Name e = [] \<and> \<not> list_ex (lineHasKey_rar ''name'') ls)"
proof (induction ls arbitrary: e)
  case Nil
  then show ?case by simp
next
  case (Cons s ss)
  obtain e1 r where p: "parseEntryLine_rar e s = (e1, r)"
    by (cases "parseEntryLine_rar e s") auto
  with Cons.prems have r: "r = None" by (cases r) auto
  with p Cons.prems have ok: "snd (parseEntryLines_rar_loop e1 ss) = None" by simp
  from p r have step:
    "if lineHasKey_rar ''name'' s then Name e1 \<noteq> [] else Name e1 = Name e"
    using parseEntryLine_rar_Name by simp
  from Cons.IH [OF ok] p r step show ?case by (auto split: if_splits)
qed

lemma parseEntryLines_rar_Name:
  "snd (parseEntryLines_rar b) = None \<Longrightarrow>
     (Name (fst (parseEntryLines_rar b)) = []) = (\<not> blockHasName b)"
  using parseEntryLines_rar_loop_Name [of zeroRarEntry b]
  by (simp add: parseEntryLines_rar_def blockHasName_def zeroRarEntry_def)

lemma parseUnRAR_loop_skip:
  assumes "getEntryLines NormalSep_rar sc = ((b, None), sc')" and "b \<noteq> []"
    and "snd (parseEntryLines_rar b) = None" and "\<not> blockHasName b"
  shows "parseUnRAR_loop sc res log = parseUnRAR_loop sc' res (log @ [skipMessage])"
proof -
  obtain e where e: "parseEntryLines_rar b = (e, None)"
    using assms(3) by (cases "parseEntryLines_rar b") auto
  with parseEntryLines_rar_Name [OF assms(3)] assms(4) have "Name e = []" by simp
  with assms(1,2) e show ?thesis by (simp add: parseUnRAR_loop.simps [of sc res log])
qed

lemma parseUnRAR_loop_keep:
  assumes "getEntryLines NormalSep_rar sc = ((b, None), sc')" and "b \<noteq> []"
    and "snd (parseEntryLines_rar b) = None" and "blockHasName b"
  shows "parseUnRAR_loop sc res log =
           parseUnRAR_loop sc' (res @ [fst (parseEntryLines_rar b)]) log"
proof -
  obtain e where e: "parseEntryLines_rar b = (e, None)"
    using assms(3) by (cases "parseEntryLines_rar b") auto
  with parseEntryLines_rar_Name [OF assms(3)] assms(4) have "Name e \<noteq> []" by simp
  with assms(1,2) e show ?thesis by (simp add: parseUnRAR_loop.simps [of sc res log])
qed

lemma parseUnRAR_loop_blocks:
  "entryBlocks NormalSep_rar sc = (bs, None) \<Longrightarrow>
   \<forall>b\<in>set bs. snd (parseEntryLines_rar b) = None \<Longrightarrow>
     parseUnRAR_loop sc res log =
       (res @ map (\<lambda>b. fst (parseEntryLines_rar b)) (filter blockHasName bs), None,
        log @ replicate (length (filter (\<lambda>b. \<not> blockHasName b) bs)) skipMessage)"
proof (induction NormalSep_rar sc arbitrary: bs res log rule: entryBlocks.induct)
  case (1 sc)
  obtain ls g sc1 where gl: "getEntryLines NormalSep_rar sc = ((ls, g), sc1)"
    by (cases "getEntryLines NormalSep_rar sc") auto
  from gl "1.prems"(1) have g: "g = None"
    by (cases g) (auto simp: entryBlocks.simps [of NormalSep_rar sc])
  show ?case
  proof (cases "ls = []")
    case True
    with gl g "1.prems"(1) have "bs = []"
      by (simp add: entryBlocks.simps [of NormalSep_rar sc])
    with gl g True show ?thesis by (simp add: parseUnRAR_loop.simps [of sc res log])
  next
    case False
    obtain bs1 r1 where b1: "entryBlocks NormalSep_rar sc1 = (bs1, r1)"
      by (cases "entryBlocks NormalSep_rar sc1") auto
    with gl g False "1.prems"(1) have bs: "bs = ls # bs1" and r1: "r1 = None"
      by (auto simp: entryBlocks.simps [of NormalSep_rar sc])
    from bs "1.prems"(2) have okl: "snd (parseEntryLines_rar ls) = None"
      and ok1: "\<forall>b\<in>set bs1. snd (parseEntryLines_rar b) = None" by auto
    have IH: "parseUnRAR_loop sc1 res' log' =
       (res' @ map (\<lambda>b. fst (parseEntryLines_rar b)) (filter blockHasName bs1), None,
        log' @ replicate (length (filter (\<lambda>b. \<not> blockHasName b) bs1)) skipMessage)"
      for res' log'
      by (rule "1.hyps" [OF gl [symmetric] refl g _ _ ok1])
         (use False b1 r1 in simp_all)
    show ?thesis
    proof (cases "blockHasName ls")
      case True
      from parseUnRAR_loop_keep [OF gl [unfolded g] False okl True] IH bs True
      show ?thesis by simp
    next
      case nn: False
      from parseUnRAR_loop_skip [OF gl [unfolded g] False okl nn] IH bs nn
      show ?thesis by (simp add: replicate_append_same)
    qed
  qed
qed

text \<open>
  Claim C9, as amended. In the native RAR dialect a block that has no \<^verbatim>\<open>Name\<close> line, so
  that the entry's \<open>Name\<close> stays empty, is skipped with one logged message and does not
  make the parse fail: when every block of the listing parses, the parser returns the
  entries of the blocks that have a \<^verbatim>\<open>Name\<close> line, in the order of the listing, with no
  error, and logs one message for each block without one; and in any listing the loop goes
  on after such a block with the same entries and one more message.
\<close>

theorem C9_blocks_without_a_Name_line_are_skipped:
  "(advanceToFirstEntry_rar (NewScanner d) = (None, sc) \<and>
    entryBlocks NormalSep_rar sc = (bs, None) \<and>
    (\<forall>b\<in>set bs. snd (parseEntryLines_rar b) = None) \<longrightarrow>
      parseUnRARListOutput d =
        (map (\<lambda>b. fst (parseEntryLines_rar b)) (filter blockHasName bs), None,
         replicate (length (filter (\<lambda>b. \<not> blockHasName b) bs)) skipMessage))
   \<and> (getEntryLines NormalSep_rar sc1 = ((b, None), sc2) \<and> b \<noteq> [] \<and>
       snd (parseEntryLines_rar b) = None \<and> \<not> blockHasName b \<longrightarrow>
      parseUnRAR_loop sc1 res log = parseUnRAR_loop sc2 res (log @ [skipMessage]))"
proof (intro conjI impI)
  assume a: "advanceToFirstEntry_rar (NewScanner d) = (None, sc) \<and>
    entryBlocks NormalSep_rar sc = (bs, None) \<and>
    (\<forall>b\<in>set bs. snd (parseEntryLines_rar b) = None)"
  then have "parseUnRAR_loop sc [] [] =
        (map (\<lambda>b. fst (parseEntryLines_rar b)) (filter blockHasName bs), None,
         replicate (length (filter (\<lambda>b. \<not> blockHasName b) bs)) skipMessage)"
    using parseUnRAR_loop_blocks [of sc bs "[]" "[]"] by simp
  with a show "parseUnRARListOutput d =
        (map (\<lambda>b. fst (parseEntryLines_rar b)) (filter blockHasName bs), None,
         replicate (length (filter (\<lambda>b. \<not> blockHasName b) bs)) skipMessage)"
    by (simp add: parseUnRARListOutput_def)
next
  assume "getEntryLines NormalSep_rar sc1 = ((b, None), sc2) \<and> b \<noteq> [] \<and>
       snd (parseEntryLines_rar b) = None \<and> \<not> blockHasName b"
  then show "parseUnRAR_loop sc1 res log = parseUnRAR_loop sc2 res (log @ [skipMessage])"
    using parseUnRAR_loop_skip by blast
qed

text \<open>A listing whose first block has no \<^verbatim>\<open>Name\<close> line, followed by a block that has one.\<close>

theorem C9_witness:
  "parseUnRARListOutput
     (listing [''Details: RAR 5'', [], ''        Type: Directory'', [],
               ''        Name: c'', ''        Size: 12'', []]) =
     ([zeroRarEntry\<lparr>Name := ''c'', Size_rar := 12\<rparr>], None, [skipMessage])
   \<and> parseUnRAR_loop
        \<lparr>buf = listing [''        Type: Directory'', [], ''        Name: c'',
                         ''        Size: 12'', []], serr = None\<rparr> [] [] =
      parseUnRAR_loop
        \<lparr>buf = listing [''        Name: c'', ''        Size: 12'', []], serr = None\<rparr> []
        ([] @ [skipMessage])"
proof -
  let ?d = "listing [''Details: RAR 5'', [], ''        Type: Directory'', [],
                     ''        Name: c'', ''        Size: 12'', []]"
  let ?sc = "\<lparr>buf = listing [''        Type: Directory'', [], ''        Name: c'',
                                ''        Size: 12'', []], serr = None\<rparr>"
  let ?sc2 = "\<lparr>buf = listing [''        Name: c'', ''        Size: 12'', []], serr = None\<rparr>"
  let ?bs = "[[''Type: Directory''], [''Name: c'', ''Size: 12'']]"
  have h1: "advanceToFirstEntry_rar (NewScanner ?d) = (None, ?sc)"
    by (simp add: eval_simps eval_rar_simps)
  have h2: "entryBlocks NormalSep_rar ?sc = (?bs, None)"
    by (simp add: eval_simps eval_rar_simps)
  have p1: "parseEntryLines_rar [''Type: Directory''] =
              (zeroRarEntry\<lparr>Type_rar := ''Directory''\<rparr>, None)"
    by (simp add: eval_simps eval_rar_simps)
  have p2: "parseEntryLines_rar [''Name: c'', ''Size: 12''] =
              (zeroRarEntry\<lparr>Name := ''c'', Size_rar := 12\<rparr>, None)"
    by (simp add: eval_simps eval_rar_simps)
  have h3: "\<forall>b\<in>set ?bs. snd (parseEntryLines_rar b) = None"
    using p1 p2 by simp
  have n1: "\<not> blockHasName [''Type: Directory'']"
    by (simp add: eval_simps eval_rar_simps)
  have n2: "blockHasName [''Name: c'', ''Size: 12'']"
    by (simp add: eval_simps eval_rar_simps)
  have g: "getEntryLines NormalSep_rar ?sc = (([''Type: Directory''], None), ?sc2)"
    by (simp add: eval_simps eval_rar_simps)
  note c1 = C9_blocks_without_a_Name_line_are_skipped
    [of ?d ?sc ?bs, THEN conjunct1, THEN mp, OF conjI [OF h1 conjI [OF h2 h3]]]
  have c2: "parseUnRAR_loop ?sc [] [] = parseUnRAR_loop ?sc2 [] ([] @ [skipMessage])"
    using C9_blocks_without_a_Name_line_are_skipped
      [of ?d ?sc ?bs ?sc "[''Type: Directory'']" ?sc2 "[]" "[]", THEN conjunct2] g p1 n1
    by simp
  from c1 n1 n2 p1 p2 have c3: "parseUnRARListOutput ?d =
     ([zeroRarEntry\<lparr>Name := ''c'', Size_rar := 12\<rparr>], None, [skipMessage])"
    by simp
  show ?thesis by (rule conjI [OF c3 c2])
qed

text \<open>
  The claim as stated fails: a block whose \<^verbatim>\<open>Name\<close> line has an empty value makes the
  parse fail, and the valid block after it is not returned.
\<close>

theorem C9_counterexample:
  "parseUnRARListOutput
     (listing [''Details: RAR 5'', [], ''        Name: '', ''        Type: File'', [],
               ''        Name: c'', []]) =
     ([], Some (ErrUnexpectedLine 1 ''Name:''), [])"
  by (simp add: eval_simps eval_rar_simps)

section \<open>Properties of the natural-order comparator\<close>

lemma naturalCompare_loop_nonzero: "naturalCompare_loop A B i \<noteq> 0"
proof (induction A B i rule: naturalCompare_loop.induct)
  case (1 A B i)
  show ?case
  proof (cases "i \<ge> length A \<or> i \<ge> length B")
    case True
    then show ?thesis by (auto simp: naturalCompare_loop.simps [of A B i] Let_def)
  next
    case False
    obtain aInt aErr where a: "Atoi (A ! i) = (aInt, aErr)" by (cases "Atoi (A ! i)") auto
    obtain bInt bErr where b: "Atoi (B ! i) = (bInt, bErr)" by (cases "Atoi (B ! i)") auto
    have IH1: "naturalCompare_loop A B (i + 1) \<noteq> 0"
      if "aErr = None \<and> bErr = None" "aInt = bInt" "i \<noteq> length A - 1" "i \<noteq> length B - 1"
      by (rule "1.IH"(1) [OF refl refl _ _ a [symmetric] refl b [symmetric] refl])
         (use False that in auto)
    have IH2: "naturalCompare_loop A B (i + 1) \<noteq> 0"
      if "\<not> (aErr = None \<and> bErr = None)" "A ! i = B ! i"
         "i \<noteq> length A - 1" "i \<noteq> length B - 1"
      by (rule "1.IH"(2) [OF refl refl _ _ a [symmetric] refl b [symmetric] refl])
         (use False that in auto)
    from False a b IH1 IH2 show ?thesis
      by (auto simp: naturalCompare_loop.simps [of A B i] Let_def)
  qed
qed

lemma naturalCompare_loop_equal_chunk:
  assumes "i < length A" "i < length B" "A ! i = B ! i"
  shows "naturalCompare_loop A B i =
           (if i = length A - 1 then - 1
            else if i = length B - 1 then 1
            else naturalCompare_loop A B (i + 1))"
proof -
  obtain aInt aErr where a: "Atoi (B ! i) = (aInt, aErr)" by (cases "Atoi (B ! i)") auto
  note unfold = naturalCompare_loop.simps [of A B i]
  from assms a show ?thesis
    unfolding unfold by (auto simp: Let_def)
qed

lemma naturalCompare_loop_prefix_shorter:
  "i < length A \<Longrightarrow> ds \<noteq> [] \<Longrightarrow> naturalCompare_loop A (A @ ds) i = - 1"
proof (induction "length A - i" arbitrary: i)
  case 0
  then show ?case by simp
next
  case (Suc n)
  have same: "A ! i = (A @ ds) ! i" using Suc.prems(1) by (simp add: nth_append)
  have step: "naturalCompare_loop A (A @ ds) i =
           (if i = length A - 1 then - 1
            else if i = length (A @ ds) - 1 then 1
            else naturalCompare_loop A (A @ ds) (i + 1))"
    by (rule naturalCompare_loop_equal_chunk [OF Suc.prems(1) _ same])
       (use Suc.prems(1) in simp)
  show ?case
  proof (cases "i = length A - 1")
    case True
    with step show ?thesis by simp
  next
    case False
    with Suc.prems(1) have lt: "i + 1 < length A" by simp
    with Suc.hyps(2) have "n = length A - (i + 1)" by simp
    from Suc.hyps(1) [OF this lt Suc.prems(2)]
    have "naturalCompare_loop A (A @ ds) (i + 1) = - 1" .
    with step False lt show ?thesis by simp
  qed
qed

lemma naturalCompare_loop_prefix_longer:
  "i < length A \<Longrightarrow> ds \<noteq> [] \<Longrightarrow> naturalCompare_loop (A @ ds) A i = 1"
proof (induction "length A - i" arbitrary: i)
  case 0
  then show ?case by simp
next
  case (Suc n)
  have same: "(A @ ds) ! i = A ! i" using Suc.prems(1) by (simp add: nth_append)
  have step: "naturalCompare_loop (A @ ds) A i =
           (if i = length (A @ ds) - 1 then - 1
            else if i = length A - 1 then 1
            else naturalCompare_loop (A @ ds) A (i + 1))"
    by (rule naturalCompare_loop_equal_chunk [OF _ Suc.prems(1) same])
       (use Suc.prems(1) in simp)
  from Suc.prems have notlast: "i \<noteq> length (A @ ds) - 1"
    by (cases ds) auto
  show ?case
  proof (cases "i = length A - 1")
    case True
    with step notlast show ?thesis by simp
  next
    case False
    with Suc.prems(1) have lt: "i + 1 < length A" by simp
    with Suc.hyps(2) have "n = length A - (i + 1)" by simp
    from Suc.hyps(1) [OF this lt Suc.prems(2)]
    have "naturalCompare_loop (A @ ds) A (i + 1) = 1" .
    with step False notlast show ?thesis by simp
  qed
qed

text \<open>
  Claim C3, as amended. When the chunk sequence of one operand is the chunk sequence of
  the other followed by more chunks, so that the two agree up to the last chunk of the
  first, the operand that ends there sorts before the longer operand, whichever way round
  the two are passed: the comparator returns -1 with the shorter operand first and 1 with
  the longer operand first.
\<close>

theorem C3_operand_that_ends_sorts_before:
  "chunkify a \<noteq> [] \<and> ds \<noteq> [] \<and> chunkify b = chunkify a @ ds \<longrightarrow>
     naturalCompare a b = - 1 \<and> naturalCompare b a = 1"
proof (intro impI)
  assume h: "chunkify a \<noteq> [] \<and> ds \<noteq> [] \<and> chunkify b = chunkify a @ ds"
  then have ne: "a \<noteq> b" by auto
  from h have pos: "0 < length (chunkify a)" by simp
  from h ne naturalCompare_loop_prefix_shorter [OF pos, of ds]
       naturalCompare_loop_prefix_longer [OF pos, of ds]
  show "naturalCompare a b = - 1 \<and> naturalCompare b a = 1"
    by (auto simp: naturalCompare_def)
qed

text \<open>The names \<^verbatim>\<open>vol\<close> and \<^verbatim>\<open>vol7.rar\<close>.\<close>

theorem C3_witness:
  "chunkify ''vol'' \<noteq> [] \<and> [''7'', ''.rar''] \<noteq> [] \<and>
   chunkify ''vol7.rar'' = chunkify ''vol'' @ [''7'', ''.rar''] \<and>
   naturalCompare ''vol'' ''vol7.rar'' = - 1 \<and> naturalCompare ''vol7.rar'' ''vol'' = 1"
proof -
  have h: "chunkify ''vol'' \<noteq> [] \<and> [''7'', ''.rar''] \<noteq> [] \<and>
           chunkify ''vol7.rar'' = chunkify ''vol'' @ [''7'', ''.rar'']"
    by (simp add: isDigit_def)
  from C3_operand_that_ends_sorts_before [of "''vol''" "[''7'', ''.rar'']" "''vol7.rar''"] h
  show ?thesis by simp
qed

text \<open>
  The claim as stated fails: \<^verbatim>\<open>a\<close> ends at the chunk where \<^verbatim>\<open>a1\<close> goes on, and it sorts
  before \<^verbatim>\<open>a1\<close>, not after it.
\<close>

theorem C3_counterexample:
  "chunkify ''a'' = [''a''] \<and> chunkify ''a1'' = [''a'', ''1''] \<and>
   naturalCompare ''a'' ''a1'' = - 1 \<and> naturalCompare ''a1'' ''a'' = 1"
  by (simp add: eval_cmp_simps)

text \<open>
  Claim C2. The comparator returns 0 exactly for equal strings
  (\<open>naturalCompare_zero_iff\<close> below), and the claim asks for the sign to flip when the
  operands are swapped. The code does not do that: the empty string compared with
  \<^verbatim>\<open>x\<close> gives 1 in both orders, and two volume names whose part numbers are the same number
  written differently give -1 in both orders.
\<close>

theorem C2_comparator_is_not_antisymmetric:
  "naturalCompare [] ''x'' = 1 \<and> naturalCompare ''x'' [] = 1 \<and>
   naturalCompare ''a.part1.rar'' ''a.part01.rar'' = - 1 \<and>
   naturalCompare ''a.part01.rar'' ''a.part1.rar'' = - 1"
  by (simp add: eval_cmp_simps)

lemma naturalCompare_zero_iff: "(naturalCompare a b = 0) = (a = b)"
  by (simp add: naturalCompare_def naturalCompare_loop_nonzero)

section \<open>Properties of the multi-volume resolver\<close>













lemma chunkify_Nil_iff [simp]: "(chunkify s = []) = (s = [])"
  by (cases s) auto







lemma splitOn_not_Nil [simp]: "splitOn c s \<noteq> []"
  by (induction s) (auto split: list.splits)










lemma IsAbs_Clean: "IsAbs p \<Longrightarrow> IsAbs (Clean p)"
  by (cases p) (auto simp: IsAbs_def Clean_def Let_def)

lemma IsAbs_Join: "IsAbs wd \<Longrightarrow> IsAbs (Join [wd, p])"
proof -
  assume a: "IsAbs wd"
  then obtain w where w: "wd = CHR ''/'' # w" by (cases wd) (auto simp: IsAbs_def)
  then have "Join [wd, p] = Clean (wd @ CHR ''/'' # p)" by (simp add: Join_def)
  moreover from w have "IsAbs (wd @ CHR ''/'' # p)" by (simp add: IsAbs_def)
  ultimately show ?thesis using IsAbs_Clean by simp
qed

lemma Abs_IsAbs:
  assumes "\<forall>wd. getwd os = Some wd \<longrightarrow> IsAbs wd" and "snd (Abs os p) = None"
  shows "IsAbs (fst (Abs os p))"
  using assms by (auto simp: Abs_def IsAbs_Clean IsAbs_Join split: option.splits)




lemma FindStringSubmatch_line:
  assumes "rarMultiPartRx_FindStringSubmatch s = m" "m \<noteq> []"
  shows "\<exists>l\<in>set (splitOn CHR 0x0A s). matchLine l = m"
proof -
  let ?ms = "filter (\<lambda>m. m \<noteq> []) (map matchLine (splitOn CHR 0x0A s))"
  from assms obtain ms where "?ms = m # ms"
    by (cases ?ms) (auto simp: rarMultiPartRx_FindStringSubmatch_def)
  then have "m \<in> set ?ms" by simp
  then show ?thesis by auto
qed

lemma matchLine_length: "matchLine l = [] \<or> length (matchLine l) = 4"
  by (simp add: matchLine_def Let_def)

lemma FindStringSubmatch_length:
  "rarMultiPartRx_FindStringSubmatch s = [] \<or> length (rarMultiPartRx_FindStringSubmatch s) = 4"
proof (cases "rarMultiPartRx_FindStringSubmatch s = []")
  case True
  then show ?thesis by simp
next
  case False
  from FindStringSubmatch_line [OF refl False] matchLine_length False show ?thesis by metis
qed



lemma SortFunc_Nil [simp]: "SortFunc [] cmp = []"
  by (simp add: SortFunc_def)

lemma detect_not_rar:
  "ToLower (Ext p) \<noteq> ''.rar'' \<Longrightarrow>
     multiVolArchiveDetect os p =
       \<lparr>isMultiVol = False, firstVolFullPath = p, multiVolFiles = [p], detectErr = None\<rparr>"
  by (simp add: multiVolArchiveDetect_def)

lemma detect_no_match:
  "ToLower (Ext p) = ''.rar'' \<Longrightarrow> rarMultiPartRx_FindStringSubmatch (Base p) = [] \<Longrightarrow>
     multiVolArchiveDetect os p =
       \<lparr>isMultiVol = False, firstVolFullPath = fst (Abs os p), multiVolFiles = [],
        detectErr = snd (Abs os p)\<rparr>"
  by (simp add: multiVolArchiveDetect_def)

lemma detect_match:
  "ToLower (Ext p) = ''.rar'' \<Longrightarrow>
   rarMultiPartRx_FindStringSubmatch (Base p) = [w, b, n, x] \<Longrightarrow>
     multiVolArchiveDetect os p =
       \<lparr>isMultiVol = True,
        firstVolFullPath = fst (Abs os (Join [Dir p, b @ ''.part1'' @ x])),
        multiVolFiles = SortFunc (glob os (Join [Dir p, b @ ''.part*'' @ x])) naturalCompare,
        detectErr = snd (Abs os (Join [Dir p, b @ ''.part1'' @ x]))\<rparr>"
  by (simp add: multiVolArchiveDetect_def Let_def)




lemma Abs_clean_absolute: "IsAbs p \<Longrightarrow> Clean p = p \<Longrightarrow> Abs os p = (p, None)"
  by (simp add: Abs_def)

text \<open>
  Claim C5, as amended. For every path whose extension is not \<^verbatim>\<open>.rar\<close> in any case the
  resolver reports not multi-volume, the input path as first-volume path, the input path
  as the only volume, and no error. For every path with that extension whose base name
  does not match the part pattern it reports not multi-volume, and its first-volume path
  and error are those of \<^verbatim>\<open>filepath.Abs\<close> for the input path: the input path itself when
  that is absolute and clean.
\<close>

theorem C5_other_paths_are_single_volumes:
  "(ToLower (Ext p) \<noteq> ''.rar'' \<longrightarrow>
      multiVolArchiveDetect os p =
        \<lparr>isMultiVol = False, firstVolFullPath = p, multiVolFiles = [p], detectErr = None\<rparr>)
   \<and> (ToLower (Ext p) = ''.rar'' \<and> rarMultiPartRx_FindStringSubmatch (Base p) = [] \<longrightarrow>
        (let r = multiVolArchiveDetect os p
         in \<not> isMultiVol r \<and> (firstVolFullPath r, detectErr r) = Abs os p \<and>
            (IsAbs p \<and> Clean p = p \<longrightarrow> firstVolFullPath r = p \<and> detectErr r = None)))"
proof (intro conjI impI)
  assume "ToLower (Ext p) \<noteq> ''.rar''"
  then show "multiVolArchiveDetect os p =
        \<lparr>isMultiVol = False, firstVolFullPath = p, multiVolFiles = [p], detectErr = None\<rparr>"
    by (rule detect_not_rar)
next
  assume "ToLower (Ext p) = ''.rar'' \<and> rarMultiPartRx_FindStringSubmatch (Base p) = []"
  then have "multiVolArchiveDetect os p =
       \<lparr>isMultiVol = False, firstVolFullPath = fst (Abs os p), multiVolFiles = [],
        detectErr = snd (Abs os p)\<rparr>"
    using detect_no_match by blast
  then show "let r = multiVolArchiveDetect os p
         in \<not> isMultiVol r \<and> (firstVolFullPath r, detectErr r) = Abs os p \<and>
            (IsAbs p \<and> Clean p = p \<longrightarrow> firstVolFullPath r = p \<and> detectErr r = None)"
    by (simp add: Let_def Abs_clean_absolute)
qed

text \<open>The paths \<^verbatim>\<open>plain.zip\<close> and \<^verbatim>\<open>/data/plain.rar\<close> in the example system.\<close>

theorem C5_witness:
  "ToLower (Ext ''plain.zip'') \<noteq> ''.rar'' \<and>
   multiVolArchiveDetect exampleOS ''plain.zip'' =
     \<lparr>isMultiVol = False, firstVolFullPath = ''plain.zip'', multiVolFiles = [''plain.zip''],
      detectErr = None\<rparr> \<and>
   ToLower (Ext ''/data/plain.rar'') = ''.rar'' \<and>
   rarMultiPartRx_FindStringSubmatch (Base ''/data/plain.rar'') = [] \<and>
   IsAbs ''/data/plain.rar'' \<and> Clean ''/data/plain.rar'' = ''/data/plain.rar'' \<and>
   \<not> isMultiVol (multiVolArchiveDetect exampleOS ''/data/plain.rar'') \<and>
   firstVolFullPath (multiVolArchiveDetect exampleOS ''/data/plain.rar'') = ''/data/plain.rar'' \<and>
   detectErr (multiVolArchiveDetect exampleOS ''/data/plain.rar'') = None"
proof -
  have h1: "ToLower (Ext ''plain.zip'') \<noteq> ''.rar''"
    by (simp add: eval_path_all)
  have h2: "ToLower (Ext ''/data/plain.rar'') = ''.rar'' \<and>
            rarMultiPartRx_FindStringSubmatch (Base ''/data/plain.rar'') = []"
    by (simp add: eval_path_all)
  have h3: "IsAbs ''/data/plain.rar'' \<and> Clean ''/data/plain.rar'' = ''/data/plain.rar''"
    by (simp add: eval_path_all)
  note c1 = C5_other_paths_are_single_volumes
    [of "''plain.zip''" exampleOS, THEN conjunct1, THEN mp, OF h1]
  note c2 = C5_other_paths_are_single_volumes
    [of "''/data/plain.rar''" exampleOS, THEN conjunct2, THEN mp, OF h2, unfolded Let_def]
  from h1 c1 h2 h3 c2 show ?thesis by blast
qed

text \<open>
  The claim as stated fails: for \<^verbatim>\<open>plain.rar\<close>, which has the extension and no part number,
  the first-volume path is not the input path and the volumes do not hold the input path.
\<close>

theorem C5_counterexample:
  "ToLower (Ext ''plain.rar'') = ''.rar'' \<and>
   rarMultiPartRx_FindStringSubmatch (Base ''plain.rar'') = [] \<and>
   multiVolArchiveDetect exampleOS ''plain.rar'' =
     \<lparr>isMultiVol = False, firstVolFullPath = ''/data/plain.rar'', multiVolFiles = [],
      detectErr = None\<rparr> \<and>
   ''/data/plain.rar'' \<noteq> ''plain.rar'' \<and> [] \<noteq> [''plain.rar'']"
  by (simp add: eval_path_all)

text \<open>
  Claim C6, as amended. For every path with the extension \<^verbatim>\<open>.rar\<close>, with or without a part
  number, the first-volume path the resolver returns without an error is absolute, the
  working directory that the system reports being absolute. For a path with another
  extension the resolver returns the input path as it is. When it returns an error, the
  first-volume path is empty.
\<close>

theorem C6_first_volume_is_absolute_for_rar_paths:
  "(let r = multiVolArchiveDetect os p
    in (ToLower (Ext p) = ''.rar'' \<and> detectErr r = None \<and>
        (\<forall>wd. getwd os = Some wd \<longrightarrow> IsAbs wd) \<longrightarrow> IsAbs (firstVolFullPath r))
     \<and> (ToLower (Ext p) \<noteq> ''.rar'' \<longrightarrow> firstVolFullPath r = p \<and> detectErr r = None)
     \<and> (detectErr r \<noteq> None \<longrightarrow> firstVolFullPath r = []))"
proof -
  let ?r = "multiVolArchiveDetect os p"
  have rar: "\<exists>q. firstVolFullPath ?r = fst (Abs os q) \<and> detectErr ?r = snd (Abs os q)"
    if ext: "ToLower (Ext p) = ''.rar''"
  proof (cases "rarMultiPartRx_FindStringSubmatch (Base p) = []")
    case True
    with ext detect_no_match [of p os] show ?thesis by auto
  next
    case False
    with FindStringSubmatch_length [of "Base p"]
    have "length (rarMultiPartRx_FindStringSubmatch (Base p)) = 4" by simp
    then obtain w b n x where "rarMultiPartRx_FindStringSubmatch (Base p) = [w, b, n, x]"
      by (auto simp: length_Suc_conv numeral_eq_Suc)
    with ext detect_match [of p w b n x os] show ?thesis by auto
  qed
  have a: "IsAbs (firstVolFullPath ?r)"
    if "ToLower (Ext p) = ''.rar'' \<and> detectErr ?r = None \<and>
        (\<forall>wd. getwd os = Some wd \<longrightarrow> IsAbs wd)"
    using rar that Abs_IsAbs [of os] by auto
  have b: "firstVolFullPath ?r = p \<and> detectErr ?r = None" if "ToLower (Ext p) \<noteq> ''.rar''"
    using detect_not_rar [OF that, of os] by simp
  have c: "firstVolFullPath ?r = []" if "detectErr ?r \<noteq> None"
  proof (cases "ToLower (Ext p) = ''.rar''")
    case True
    from rar [OF True] that show ?thesis
      by (auto simp: Abs_def split: if_splits option.splits)
  next
    case False
    with b that show ?thesis by simp
  qed
  from a b c show ?thesis unfolding Let_def by blast
qed

text \<open>
  The paths \<^verbatim>\<open>plain.rar\<close> and \<^verbatim>\<open>plain.zip\<close> in the example system, and \<^verbatim>\<open>plain.rar\<close> in a
  system whose working directory cannot be read.
\<close>

theorem C6_witness:
  "ToLower (Ext ''plain.rar'') = ''.rar'' \<and>
   detectErr (multiVolArchiveDetect exampleOS ''plain.rar'') = None \<and>
   IsAbs (firstVolFullPath (multiVolArchiveDetect exampleOS ''plain.rar'')) \<and>
   ToLower (Ext ''plain.zip'') \<noteq> ''.rar'' \<and>
   firstVolFullPath (multiVolArchiveDetect exampleOS ''plain.zip'') = ''plain.zip'' \<and>
   detectErr (multiVolArchiveDetect (exampleOS\<lparr>getwd := None\<rparr>) ''plain.rar'') \<noteq> None \<and>
   firstVolFullPath (multiVolArchiveDetect (exampleOS\<lparr>getwd := None\<rparr>) ''plain.rar'') = []"
proof -
  have h1: "ToLower (Ext ''plain.rar'') = ''.rar''"
    by (simp add: eval_path_all)
  have h2: "detectErr (multiVolArchiveDetect exampleOS ''plain.rar'') = None"
    by (simp add: eval_path_all)
  have wd: "\<forall>wd. getwd exampleOS = Some wd \<longrightarrow> IsAbs wd"
    by (simp add: exampleOS_def IsAbs_def)
  have h3: "ToLower (Ext ''plain.zip'') \<noteq> ''.rar''"
    by (simp add: eval_path_all)
  have h4: "detectErr (multiVolArchiveDetect (exampleOS\<lparr>getwd := None\<rparr>) ''plain.rar'') \<noteq> None"
    by (simp add: eval_path_all)
  note c1 = C6_first_volume_is_absolute_for_rar_paths
    [of exampleOS "''plain.rar''", unfolded Let_def]
  note c2 = C6_first_volume_is_absolute_for_rar_paths
    [of exampleOS "''plain.zip''", unfolded Let_def]
  note c3 = C6_first_volume_is_absolute_for_rar_paths
    [of "exampleOS\<lparr>getwd := None\<rparr>" "''plain.rar''", unfolded Let_def]
  from c1 h1 h2 wd have a: "IsAbs (firstVolFullPath (multiVolArchiveDetect exampleOS ''plain.rar''))"
    by blast
  from c2 h3 have b: "firstVolFullPath (multiVolArchiveDetect exampleOS ''plain.zip'') = ''plain.zip''"
    by blast
  from c3 h4 have c:
    "firstVolFullPath (multiVolArchiveDetect (exampleOS\<lparr>getwd := None\<rparr>) ''plain.rar'') = []"
    by blast
  from h1 h2 a h3 b h4 c show ?thesis by blast
qed

text \<open>
  The claim as stated fails: for the relative path \<^verbatim>\<open>plain.zip\<close> the first-volume path is
  the relative path itself.
\<close>

theorem C6_counterexample:
  "firstVolFullPath (multiVolArchiveDetect exampleOS ''plain.zip'') = ''plain.zip'' \<and>
   detectErr (multiVolArchiveDetect exampleOS ''plain.zip'') = None \<and>
   \<not> IsAbs ''plain.zip''"
  by (simp add: eval_path_all)

end
